theory Spec2Isabelle
  imports Complex_Main "HOL-Library.AList" "HOL-Library.Multiset"
begin

section \<open>Edge monitoring system: the embedding of edge\_anamoly\_detector.py\<close>

text \<open>
  The program simulates three sensors, flags readings outside static thresholds,
  summarises the log by mean and standard deviation, and dumps both as JSON.

  Conventions of the embedding:
  \<^item> a Python \<open>dict\<close> with string keys is an association list in insertion order
    (\<open>d[k] = v\<close> is \<open>AList.update\<close>: a new key goes last, an old key keeps its
    place); a well-formed dict has distinct keys;
  \<^item> a Python \<open>float\<close> is the real number it denotes. Comparison of finite floats is
    comparison of these reals. The arithmetic of \<open>statistics.mean\<close>,
    \<open>statistics.stdev\<close> and \<open>round\<close> is embedded twice: exactly, without the final
    rounding to a binary double (\<open>mean\<close>, \<open>stdev\<close>, \<open>round_py\<close>), and in double
    precision, with that rounding and with \<open>OverflowError\<close> (\<open>mean_f64\<close>,
    \<open>stdev_f64\<close>, \<open>round_f64\<close>). What the summary contains numerically, and which
    exceptions the summariser raises, is stated on the second; \<open>random.uniform\<close> is
    taken exactly;
  \<^item> an exception is a value of type \<open>error\<close>, returned as \<open>Inl\<close>;
  \<^item> the randomness source is the infinite sequence of the outcomes of
    \<open>random.random()\<close>, consumed from the front;
  \<^item> the console, the clock and the output file are fields of an explicit world state.
\<close>

subsection \<open>Exceptions and dictionaries\<close>

datatype error = KeyError string | StatisticsError | TypeError | OverflowError

type_synonym 'v dict = "(string \<times> 'v) list"

text \<open>\<open>d[k]\<close> as an expression: the value bound to \<open>k\<close>, or \<open>KeyError(k)\<close>.\<close>

definition getitem :: "'v dict \<Rightarrow> string \<Rightarrow> error + 'v" where
  "getitem d k = (case map_of d k of None \<Rightarrow> Inl (KeyError k) | Some v \<Rightarrow> Inr v)"

subsection \<open>Configuration\<close>

definition SENSOR_CONFIG :: "real dict dict" where
  "SENSOR_CONFIG =
     [(''temperature'', [(''min'', 19), (''max'', 24)]),
      (''vibration'', [(''min'', 1 / 10), (''max'', 1)]),
      (''voltage'', [(''min'', 110), (''max'', 125)])]"

definition READINGS :: nat where
  "READINGS = 10"

definition DELAY_SEC :: real where
  "DELAY_SEC = 1"

subsection \<open>Library functions the program calls\<close>

text \<open>
  \<open>round(x, n)\<close> on a float rounds the exact value of \<open>x\<close> to \<open>n\<close> decimals, ties
  going to the even digit.
\<close>

definition round_half_even :: "real \<Rightarrow> int" where
  "round_half_even x =
     (let f = \<lfloor>x\<rfloor>; d = x - of_int f
      in if d < 1 / 2 then f
         else if 1 / 2 < d then f + 1
         else if even f then f else f + 1)"

definition round_py :: "real \<Rightarrow> nat \<Rightarrow> real" where
  "round_py x n = of_int (round_half_even (x * 10 ^ n)) / 10 ^ n"

text \<open>
  \<open>random.random()\<close> takes the next outcome of the source;
  \<open>random.uniform(a, b)\<close> is \<open>a + (b - a) * random()\<close>.
\<close>

type_synonym randomness = "nat \<Rightarrow> real"

definition random_random :: "randomness \<Rightarrow> real \<times> randomness" where
  "random_random rs = (rs 0, \<lambda>i. rs (Suc i))"

definition random_uniform :: "real \<Rightarrow> real \<Rightarrow> randomness \<Rightarrow> real \<times> randomness" where
  "random_uniform a b rs = (let (u, rs') = random_random rs in (a + (b - a) * u, rs'))"

text \<open>
  \<open>statistics.mean\<close> raises \<open>StatisticsError\<close> on no data; \<open>statistics.stdev\<close> is the
  square root of the sample variance and raises \<open>StatisticsError\<close> on fewer than two
  data points.
\<close>

definition mean :: "real list \<Rightarrow> error + real" where
  "mean data =
     (if length data < 1 then Inl StatisticsError
      else Inr (sum_list data / real (length data)))"

definition variance :: "real list \<Rightarrow> error + real" where
  "variance data =
     (if length data < 2 then Inl StatisticsError
      else let c = sum_list data / real (length data)
           in Inr (sum_list (map (\<lambda>x. (x - c)\<^sup>2) data) / real (length data - 1)))"

definition stdev :: "real list \<Rightarrow> error + real" where
  "stdev data = (case variance data of Inl e \<Rightarrow> Inl e | Inr var \<Rightarrow> Inr (sqrt var))"

subsection \<open>The library functions in double precision\<close>

text \<open>
  A Python \<open>float\<close> is a binary64 number: 53 significant bits, exponents from \<open>-1022\<close>
  to \<open>1023\<close>. \<open>to_double x\<close> is the double nearest to the real \<open>x\<close>, a tie going to the
  even significand: \<open>x\<close> is divided by the unit in the last place of its binade (the
  exponent is at least \<open>-1022\<close>, below that the doubles are subnormal) and rounded to an
  integer. \<open>as_double\<close> is the conversion of an exactly computed result to a float:
  \<open>OverflowError\<close> when the rounded magnitude reaches \<open>2 ^ 1024\<close>, beyond the largest
  finite double.
\<close>

definition double_exponent :: "real \<Rightarrow> int" where
  "double_exponent x = max \<lfloor>log 2 \<bar>x\<bar>\<rfloor> (- 1022)"

definition double_ulp :: "real \<Rightarrow> real" where
  "double_ulp x = 2 powi (double_exponent x - 52)"

definition to_double :: "real \<Rightarrow> real" where
  "to_double x =
     (if x = 0 then 0 else of_int (round_half_even (x / double_ulp x)) * double_ulp x)"

definition as_double :: "real \<Rightarrow> error + real" where
  "as_double x = (if 2 ^ 1024 \<le> \<bar>to_double x\<bar> then Inl OverflowError else Inr (to_double x))"

text \<open>
  In CPython 3.11 and later \<open>statistics.mean\<close> sums the data exactly, as fractions, and
  converts the exact quotient to a float; \<open>statistics.stdev\<close> computes the sample
  variance exactly and returns its square root correctly rounded; \<open>round(x, n)\<close> rounds
  the exact value of \<open>x\<close> to \<open>n\<close> decimals, ties going to the even digit, and returns the
  double nearest to that decimal. The data are finite floats.
\<close>

definition mean_f64 :: "real list \<Rightarrow> error + real" where
  "mean_f64 data =
     (if length data < 1 then Inl StatisticsError
      else as_double (sum_list data / real (length data)))"

definition stdev_f64 :: "real list \<Rightarrow> error + real" where
  "stdev_f64 data =
     (if length data < 2 then Inl StatisticsError
      else let c = sum_list data / real (length data)
           in as_double (sqrt (sum_list (map (\<lambda>x. (x - c)\<^sup>2) data) / real (length data - 1))))"

definition round_f64 :: "real \<Rightarrow> nat \<Rightarrow> error + real" where
  "round_f64 x n = as_double (round_py x n)"

subsection \<open>The sampler\<close>

type_synonym reading = "real dict"

definition generate_sensor_data :: "randomness \<Rightarrow> reading \<times> randomness" where
  "generate_sensor_data rs =
     (let (t, rs1) = random_uniform (37 / 2) (49 / 2) rs;
          (vb, rs2) = random_uniform (1 / 20) (11 / 10) rs1;
          (vo, rs3) = random_uniform 108 127 rs2
      in ([(''temperature'', round_py t 2),
           (''vibration'', round_py vb 2),
           (''voltage'', round_py vo 2)], rs3))"

subsection \<open>The anomaly checker\<close>

text \<open>
  The loop over \<open>data.items()\<close>, with the dictionary \<open>anomalies\<close> built so far.
  \<open>or\<close> is short-circuit: \<open>limits["max"]\<close> is only read when the first test fails.
\<close>

fun detect_loop :: "reading \<Rightarrow> real dict \<Rightarrow> error + real dict" where
  "detect_loop [] anomalies = Inr anomalies"
| "detect_loop ((sensor, reading) # items) anomalies =
     (case getitem SENSOR_CONFIG sensor of
        Inl e \<Rightarrow> Inl e
      | Inr limits \<Rightarrow>
          (case getitem limits ''min'' of
             Inl e \<Rightarrow> Inl e
           | Inr lo \<Rightarrow>
               if reading < lo
               then detect_loop items (AList.update sensor reading anomalies)
               else (case getitem limits ''max'' of
                       Inl e \<Rightarrow> Inl e
                     | Inr hi \<Rightarrow>
                         if reading > hi
                         then detect_loop items (AList.update sensor reading anomalies)
                         else detect_loop items anomalies)))"

definition detect_anomalies :: "reading \<Rightarrow> error + real dict" where
  "detect_anomalies data = detect_loop data []"

subsection \<open>The health summariser\<close>

text \<open>The comprehension \<open>[entry[sensor] for entry in log]\<close>.\<close>

fun collect_values :: "string \<Rightarrow> reading list \<Rightarrow> error + real list" where
  "collect_values sensor [] = Inr []"
| "collect_values sensor (entry # entries) =
     (case getitem entry sensor of
        Inl e \<Rightarrow> Inl e
      | Inr v \<Rightarrow>
          (case collect_values sensor entries of
             Inl e \<Rightarrow> Inl e
           | Inr vs \<Rightarrow> Inr (v # vs)))"

text \<open>
  The loop over the keys of \<open>SENSOR_CONFIG\<close>, with the dictionary \<open>status\<close> built so
  far. \<open>stdev\<close> is only called when there is more than one value.
\<close>

fun health_loop :: "string list \<Rightarrow> reading list \<Rightarrow> real dict dict \<Rightarrow> error + real dict dict" where
  "health_loop [] lg status = Inr status"
| "health_loop (sensor # sensors) lg status =
     (case collect_values sensor lg of
        Inl e \<Rightarrow> Inl e
      | Inr vals \<Rightarrow>
          (case mean vals of
             Inl e \<Rightarrow> Inl e
           | Inr m \<Rightarrow>
               (case (if length vals > 1
                      then (case stdev vals of Inl e \<Rightarrow> Inl e | Inr s \<Rightarrow> Inr (round_py s 2))
                      else Inr 0) of
                  Inl e \<Rightarrow> Inl e
                | Inr sd \<Rightarrow>
                    health_loop sensors lg
                      (AList.update sensor [(''avg'', round_py m 2), (''std_dev'', sd)] status))))"

definition health_status :: "reading list \<Rightarrow> error + real dict dict" where
  "health_status lg = health_loop (map fst SENSOR_CONFIG) lg []"

text \<open>
  The same loop in double precision, the statements of the body in the order of the
  source: \<open>values\<close>, \<open>avg = round(mean(values), 2)\<close>, \<open>sd\<close>, the assignment to
  \<open>status[sensor]\<close>.
\<close>

fun health_loop_f64 :: "string list \<Rightarrow> reading list \<Rightarrow> real dict dict \<Rightarrow> error + real dict dict" where
  "health_loop_f64 [] lg status = Inr status"
| "health_loop_f64 (sensor # sensors) lg status =
     (case collect_values sensor lg of
        Inl e \<Rightarrow> Inl e
      | Inr vals \<Rightarrow>
          (case mean_f64 vals of
             Inl e \<Rightarrow> Inl e
           | Inr m \<Rightarrow>
               (case round_f64 m 2 of
                  Inl e \<Rightarrow> Inl e
                | Inr avg \<Rightarrow>
                    (case (if length vals > 1
                           then (case stdev_f64 vals of Inl e \<Rightarrow> Inl e | Inr s \<Rightarrow> round_f64 s 2)
                           else Inr 0) of
                       Inl e \<Rightarrow> Inl e
                     | Inr sd \<Rightarrow>
                         health_loop_f64 sensors lg
                           (AList.update sensor [(''avg'', avg), (''std_dev'', sd)] status)))))"

definition health_status_f64 :: "reading list \<Rightarrow> error + real dict dict" where
  "health_status_f64 lg = health_loop_f64 (map fst SENSOR_CONFIG) lg []"

subsection \<open>The driver\<close>

text \<open>The object handed to \<open>json.dump\<close>, as a JSON value.\<close>

datatype json = JNumber real | JArray "json list" | JObject "(string \<times> json) list"

definition json_of_reading :: "real dict \<Rightarrow> json" where
  "json_of_reading d = JObject (map (\<lambda>(k, v). (k, JNumber v)) d)"

definition json_of_log :: "reading list \<Rightarrow> json" where
  "json_of_log lg = JArray (map json_of_reading lg)"

definition json_of_summary :: "real dict dict \<Rightarrow> json" where
  "json_of_summary st = JObject (map (\<lambda>(k, d). (k, json_of_reading d)) st)"

text \<open>What \<open>print\<close> writes, one constructor per call site of \<open>main\<close>.\<close>

datatype console_line =
    StartBanner
  | ReadingLine nat reading
  | AnomalyLine "real dict"
  | SummaryHeader
  | SummaryJson json
  | LoggedNotice

record world =
  rng :: randomness
  console :: "console_line list"
  slept :: real
  edge_health_log :: "json option"

definition init_world :: "randomness \<Rightarrow> world" where
  "init_world rs = \<lparr>rng = rs, console = [], slept = 0, edge_health_log = None\<rparr>"

definition print_line :: "console_line \<Rightarrow> world \<Rightarrow> world" where
  "print_line l w = w\<lparr>console := console w @ [l]\<rparr>"

definition time_sleep :: "real \<Rightarrow> world \<Rightarrow> world" where
  "time_sleep d w = w\<lparr>slept := slept w + d\<rparr>"

text \<open>One pass of the body of \<open>for i in range(READINGS)\<close>.\<close>

definition tick :: "nat \<Rightarrow> reading list \<times> world \<Rightarrow> error + reading list \<times> world" where
  "tick i s =
     (let (lg, w) = s;
          (data, rs') = generate_sensor_data (rng w);
          w0 = w\<lparr>rng := rs'\<rparr>;
          lg' = lg @ [data]
      in case detect_anomalies data of
           Inl e \<Rightarrow> Inl e
         | Inr anomalies \<Rightarrow>
             let w1 = print_line (ReadingLine (i + 1) data) w0;
                 w2 = (if anomalies \<noteq> [] then print_line (AnomalyLine anomalies) w1 else w1)
             in Inr (lg', time_sleep DELAY_SEC w2))"

fun main_loop :: "nat list \<Rightarrow> reading list \<times> world \<Rightarrow> error + reading list \<times> world" where
  "main_loop [] s = Inr s"
| "main_loop (i # is) s =
     (case tick i s of Inl e \<Rightarrow> Inl e | Inr s' \<Rightarrow> main_loop is s')"

text \<open>\<open>json.dump(obj, f)\<close> on the freshly truncated file \<open>edge_health_log.json\<close>.\<close>

definition json_dump :: "json \<Rightarrow> world \<Rightarrow> world" where
  "json_dump obj w = w\<lparr>edge_health_log := Some obj\<rparr>"

text \<open>\<open>main\<close> with the reading count as a parameter; the program runs it at \<open>READINGS\<close>.\<close>

definition main_with :: "nat \<Rightarrow> world \<Rightarrow> error + world" where
  "main_with n w =
     (case main_loop [0..<n] ([], print_line StartBanner w) of
        Inl e \<Rightarrow> Inl e
      | Inr (lg, w1) \<Rightarrow>
          (case health_status lg of
             Inl e \<Rightarrow> Inl e
           | Inr summary \<Rightarrow>
               Inr (print_line LoggedNotice
                     (json_dump (JObject [(''readings'', json_of_log lg),
                                          (''summary'', json_of_summary summary)])
                       (print_line (SummaryJson (json_of_summary summary))
                         (print_line SummaryHeader w1))))))"

definition main :: "world \<Rightarrow> error + world" where
  "main w = main_with READINGS w"

text \<open>A randomness source that yields the same outcome forever, for concrete runs.\<close>

definition const_source :: "real \<Rightarrow> randomness" where
  "const_source c = (\<lambda>i. c)"

subsection \<open>The anomaly checker and the health summariser on an explicit store\<close>

text \<open>
  To state what the two functions leave unchanged, they are embedded a second time on
  an explicit store. Objects live in a heap, a list indexed by address; a dict or list
  holds floats and references to other objects; a fresh object is appended at the end.
  The module global \<open>SENSOR_CONFIG\<close> is a binding to the address of the configuration
  dict, whose values are references to the per-sensor dicts. The functions take the
  address of their argument and return the address of their result, or the exception,
  together with the store they leave behind. The model follows the program on the
  objects it passes (a reading is a dict of floats, the log a list of references to
  such dicts); where it meets an object of another type it stops with \<open>TypeError\<close>.
\<close>

datatype pyval = Float real | Ref nat

datatype pyobj = DictObj "pyval dict" | ListObj "pyval list"

record store =
  heap :: "pyobj list"
  SENSOR_CONFIG_global :: nat

definition alloc :: "pyobj \<Rightarrow> store \<Rightarrow> nat \<times> store" where
  "alloc obj s = (length (heap s), s\<lparr>heap := heap s @ [obj]\<rparr>)"

definition load_dict :: "store \<Rightarrow> pyval \<Rightarrow> error + pyval dict" where
  "load_dict s v =
     (case v of
        Float x \<Rightarrow> Inl TypeError
      | Ref a \<Rightarrow>
          if a < length (heap s)
          then (case heap s ! a of DictObj d \<Rightarrow> Inr d | ListObj xs \<Rightarrow> Inl TypeError)
          else Inl TypeError)"

definition load_list :: "store \<Rightarrow> pyval \<Rightarrow> error + pyval list" where
  "load_list s v =
     (case v of
        Float x \<Rightarrow> Inl TypeError
      | Ref a \<Rightarrow>
          if a < length (heap s)
          then (case heap s ! a of DictObj d \<Rightarrow> Inl TypeError | ListObj xs \<Rightarrow> Inr xs)
          else Inl TypeError)"

text \<open>\<open>d[k] = v\<close> on the dict at address \<open>a\<close>, which the caller has just allocated.\<close>

definition setitem :: "nat \<Rightarrow> string \<Rightarrow> pyval \<Rightarrow> store \<Rightarrow> store" where
  "setitem a k v s =
     (if a < length (heap s)
      then (case heap s ! a of
              DictObj d \<Rightarrow> s\<lparr>heap := (heap s)[a := DictObj (AList.update k v d)]\<rparr>
            | ListObj xs \<Rightarrow> s)
      else s)"

text \<open>\<open>x < y\<close>: defined on two floats, a \<open>TypeError\<close> otherwise.\<close>

definition py_less :: "pyval \<Rightarrow> pyval \<Rightarrow> error + bool" where
  "py_less x y =
     (case (x, y) of (Float a, Float b) \<Rightarrow> Inr (a < b) | _ \<Rightarrow> Inl TypeError)"

fun detect_loop_st :: "pyval dict \<Rightarrow> nat \<Rightarrow> store \<Rightarrow> (error + nat) \<times> store" where
  "detect_loop_st [] anomalies s = (Inr anomalies, s)"
| "detect_loop_st ((sensor, reading) # items) anomalies s =
     (case load_dict s (Ref (SENSOR_CONFIG_global s)) of
        Inl e \<Rightarrow> (Inl e, s)
      | Inr config \<Rightarrow>
     (case getitem config sensor of
        Inl e \<Rightarrow> (Inl e, s)
      | Inr limits_ref \<Rightarrow>
     (case load_dict s limits_ref of
        Inl e \<Rightarrow> (Inl e, s)
      | Inr limits \<Rightarrow>
     (case getitem limits ''min'' of
        Inl e \<Rightarrow> (Inl e, s)
      | Inr lo \<Rightarrow>
     (case py_less reading lo of
        Inl e \<Rightarrow> (Inl e, s)
      | Inr lt_min \<Rightarrow>
          if lt_min
          then detect_loop_st items anomalies (setitem anomalies sensor reading s)
          else
     (case getitem limits ''max'' of
        Inl e \<Rightarrow> (Inl e, s)
      | Inr hi \<Rightarrow>
     (case py_less hi reading of
        Inl e \<Rightarrow> (Inl e, s)
      | Inr gt_max \<Rightarrow>
          if gt_max
          then detect_loop_st items anomalies (setitem anomalies sensor reading s)
          else detect_loop_st items anomalies s)))))))"

definition detect_anomalies_st :: "nat \<Rightarrow> store \<Rightarrow> (error + nat) \<times> store" where
  "detect_anomalies_st data s =
     (let (anomalies, s1) = alloc (DictObj []) s
      in case load_dict s1 (Ref data) of
           Inl e \<Rightarrow> (Inl e, s1)
         | Inr items \<Rightarrow> detect_loop_st items anomalies s1)"

text \<open>The comprehension \<open>[entry[sensor] for entry in log]\<close> on the store.\<close>

fun collect_values_st :: "store \<Rightarrow> string \<Rightarrow> pyval list \<Rightarrow> error + pyval list" where
  "collect_values_st s sensor [] = Inr []"
| "collect_values_st s sensor (entry # entries) =
     (case load_dict s entry of
        Inl e \<Rightarrow> Inl e
      | Inr d \<Rightarrow>
     (case getitem d sensor of
        Inl e \<Rightarrow> Inl e
      | Inr v \<Rightarrow>
     (case collect_values_st s sensor entries of
        Inl e \<Rightarrow> Inl e
      | Inr vs \<Rightarrow> Inr (v # vs))))"

text \<open>The arguments of \<open>mean\<close> and \<open>stdev\<close> must be numbers.\<close>

fun floats :: "pyval list \<Rightarrow> error + real list" where
  "floats [] = Inr []"
| "floats (Float x # vs) = (case floats vs of Inl e \<Rightarrow> Inl e | Inr xs \<Rightarrow> Inr (x # xs))"
| "floats (Ref a # vs) = Inl TypeError"

fun health_loop_st :: "string list \<Rightarrow> pyval list \<Rightarrow> nat \<Rightarrow> store \<Rightarrow> (error + nat) \<times> store" where
  "health_loop_st [] entries status s = (Inr status, s)"
| "health_loop_st (sensor # sensors) entries status s =
     (case collect_values_st s sensor entries of
        Inl e \<Rightarrow> (Inl e, s)
      | Inr vs \<Rightarrow>
     (case floats vs of
        Inl e \<Rightarrow> (Inl e, s)
      | Inr vals \<Rightarrow>
     (case mean vals of
        Inl e \<Rightarrow> (Inl e, s)
      | Inr m \<Rightarrow>
     (case (if length vals > 1
            then (case stdev vals of Inl e \<Rightarrow> Inl e | Inr sd \<Rightarrow> Inr (round_py sd 2))
            else Inr 0) of
        Inl e \<Rightarrow> (Inl e, s)
      | Inr sd \<Rightarrow>
          (let (r, s1) = alloc (DictObj [(''avg'', Float (round_py m 2)), (''std_dev'', Float sd)]) s
           in health_loop_st sensors entries status (setitem status sensor (Ref r) s1))))))"

definition health_status_st :: "nat \<Rightarrow> store \<Rightarrow> (error + nat) \<times> store" where
  "health_status_st lg s =
     (let (status, s1) = alloc (DictObj []) s
      in case load_dict s1 (Ref (SENSOR_CONFIG_global s1)) of
           Inl e \<Rightarrow> (Inl e, s1)
         | Inr config \<Rightarrow>
             (case load_list s1 (Ref lg) of
                Inl e \<Rightarrow> (Inl e, s1)
              | Inr entries \<Rightarrow> health_loop_st (map fst config) entries status s1))"

text \<open>
  A store for concrete runs: the configuration at addresses 0 to 3, the reading
  \<open>{temperature: 25.0, vibration: 0.5, voltage: 115.0}\<close> at address 4 and the log
  holding that reading at address 5.
\<close>

definition example_store :: store where
  "example_store =
     \<lparr>heap =
        [DictObj [(''temperature'', Ref 1), (''vibration'', Ref 2), (''voltage'', Ref 3)],
         DictObj [(''min'', Float 19), (''max'', Float 24)],
         DictObj [(''min'', Float (1 / 10)), (''max'', Float 1)],
         DictObj [(''min'', Float 110), (''max'', Float 125)],
         DictObj [(''temperature'', Float 25), (''vibration'', Float (1 / 2)),
                  (''voltage'', Float 115)],
         ListObj [Ref 4]],
      SENSOR_CONFIG_global = 0\<rparr>"

subsection \<open>Auxiliary notions for the proofs\<close>

text \<open>
  The test of \<open>detect_anomalies\<close> on one item, read off the configuration:
  \<open>reading < limits["min"] or reading > limits["max"]\<close> with
  \<open>limits = SENSOR_CONFIG[sensor]\<close>.
\<close>

definition out_of_bounds :: "string \<Rightarrow> real \<Rightarrow> bool" where
  "out_of_bounds sensor v =
     (\<exists>limits lo hi. map_of SENSOR_CONFIG sensor = Some limits \<and>
        map_of limits ''min'' = Some lo \<and> map_of limits ''max'' = Some hi \<and>
        (v < lo \<or> hi < v))"


text \<open>
  One pass of the body of the loop of \<open>health_status\<close> in double precision, on the
  values of one sensor; and what it binds the sensor to when nothing overflows.
\<close>

definition summary_f64 :: "real list \<Rightarrow> error + real dict" where
  "summary_f64 vals =
     (case mean_f64 vals of
        Inl e \<Rightarrow> Inl e
      | Inr m \<Rightarrow>
          (case round_f64 m 2 of
             Inl e \<Rightarrow> Inl e
           | Inr avg \<Rightarrow>
               (case (if length vals > 1
                      then (case stdev_f64 vals of Inl e \<Rightarrow> Inl e | Inr s \<Rightarrow> round_f64 s 2)
                      else Inr 0) of
                  Inl e \<Rightarrow> Inl e
                | Inr sd \<Rightarrow> Inr [(''avg'', avg), (''std_dev'', sd)])))"

definition summary_of_f64 :: "real list \<Rightarrow> real dict" where
  "summary_of_f64 vals =
     [(''avg'', to_double (round_py (to_double (sum_list vals / real (length vals))) 2)),
      (''std_dev'',
         if 2 \<le> length vals
         then to_double (round_py (to_double (sqrt
                (sum_list (map (\<lambda>x. (x - sum_list vals / real (length vals))\<^sup>2) vals)
                   / real (length vals - 1)))) 2)
         else 0)]"

text \<open>
  The link between the two embeddings: a dict of floats as a heap object, and a store
  that holds the configuration below address \<open>n\<close>.
\<close>

definition box :: "real dict \<Rightarrow> pyval dict" where
  "box d = map (\<lambda>(k, v). (k, Float v)) d"

definition config_at :: "nat \<Rightarrow> store \<Rightarrow> bool" where
  "config_at n s =
     (n \<le> length (heap s) \<and> SENSOR_CONFIG_global s < n \<and>
      (\<exists>config. heap s ! SENSOR_CONFIG_global s = DictObj config \<and>
         list_all2 (\<lambda>(k, r) (k', limits). k = k' \<and>
            (\<exists>l < n. r = Ref l \<and> heap s ! l = DictObj (box limits))) config SENSOR_CONFIG))"

definition log_at :: "nat \<Rightarrow> store \<Rightarrow> pyval list \<Rightarrow> reading list \<Rightarrow> bool" where
  "log_at n s refs lg =
     list_all2 (\<lambda>r entry. \<exists>l < n. r = Ref l \<and> heap s ! l = DictObj (box entry)) refs lg"

definition status_at :: "store \<Rightarrow> nat \<Rightarrow> real dict dict \<Rightarrow> bool" where
  "status_at s a status =
     (\<exists>sd. heap s ! a = DictObj sd \<and>
        list_all2 (\<lambda>(k, r) (k', st). k = k' \<and>
           (\<exists>l < length (heap s). r = Ref l \<and> l \<noteq> a \<and> heap s ! l = DictObj (box st)))
          sd status)"

section \<open>The anomaly checker\<close>

lemma config_keys: "map fst SENSOR_CONFIG = [''temperature'', ''vibration'', ''voltage'']"
  by (simp add: SENSOR_CONFIG_def)

lemma config_cases:
  assumes "sensor \<in> fst ` set SENSOR_CONFIG"
  obtains "sensor = ''temperature''" | "sensor = ''vibration''" | "sensor = ''voltage''"
  using assms by (auto simp: SENSOR_CONFIG_def)

lemma out_of_bounds_limits:
  "map_of SENSOR_CONFIG s = Some [(''min'', lo), (''max'', hi)] \<Longrightarrow>
     out_of_bounds s v \<longleftrightarrow> v < lo \<or> hi < v"
  by (simp add: out_of_bounds_def)

lemma out_of_bounds_simps:
  "out_of_bounds ''temperature'' v \<longleftrightarrow> v < 19 \<or> 24 < v"
  "out_of_bounds ''vibration'' v \<longleftrightarrow> v < 1 / 10 \<or> 1 < v"
  "out_of_bounds ''voltage'' v \<longleftrightarrow> v < 110 \<or> 125 < v"
  by (rule out_of_bounds_limits, simp add: SENSOR_CONFIG_def)+

lemma detect_loop_step:
  assumes "sensor \<in> fst ` set SENSOR_CONFIG"
  shows "detect_loop ((sensor, v) # items) acc =
           detect_loop items (if out_of_bounds sensor v then AList.update sensor v acc else acc)"
  using assms
  by (rule config_cases) (simp_all add: out_of_bounds_simps, simp_all add: SENSOR_CONFIG_def getitem_def)

lemma detect_loop_total:
  assumes "fst ` set items \<subseteq> fst ` set SENSOR_CONFIG"
  shows "\<exists>res. detect_loop items acc = Inr res \<and> 
     map_of res = (\<lambda>s. case map_of (filter (\<lambda>(k, v). out_of_bounds k v) (rev items)) s of None \<Rightarrow> map_of acc s | Some v \<Rightarrow> Some v)
     \<and> (distinct (map fst acc) \<longrightarrow> distinct (map fst res))
     \<and> (acc = [] \<and> (\<forall>(k, v) \<in> set items. \<not> out_of_bounds k v) \<longrightarrow> res = [])"
  using assms
proof (induction items arbitrary: acc)
  case Nil
  then show ?case by simp
next
  case (Cons kv items)
  obtain k v where kv: "kv = (k, v)" by (cases kv)
  with Cons.prems have k: "k \<in> fst ` set SENSOR_CONFIG" and rest: "fst ` set items \<subseteq> fst ` set SENSOR_CONFIG"
    by auto
  let ?acc = "if out_of_bounds k v then AList.update k v acc else acc"
  from Cons.IH[OF rest, of ?acc] obtain res where
    r: "detect_loop items ?acc = Inr res" and
    m: "map_of res = (\<lambda>s. case map_of (filter (\<lambda>(k, v). out_of_bounds k v) (rev items)) s of None \<Rightarrow> map_of ?acc s | Some v \<Rightarrow> Some v)" and
    d: "distinct (map fst ?acc) \<longrightarrow> distinct (map fst res)" and
    e: "?acc = [] \<and> (\<forall>(k, v) \<in> set items. \<not> out_of_bounds k v) \<longrightarrow> res = []"
    by blast
  have "detect_loop (kv # items) acc = Inr res"
    using r by (simp only: kv detect_loop_step[OF k])
  moreover have "map_of res = (\<lambda>s. case map_of (filter (\<lambda>(k, v). out_of_bounds k v) (rev (kv # items))) s of None \<Rightarrow> map_of acc s | Some v \<Rightarrow> Some v)"
    unfolding m kv by (auto simp: fun_eq_iff update_conv' map_add_def split: option.splits)
  moreover have "distinct (map fst acc) \<longrightarrow> distinct (map fst res)"
    using d by (simp add: distinct_update)
  moreover have "acc = [] \<and> (\<forall>(k, v) \<in> set (kv # items). \<not> out_of_bounds k v) \<longrightarrow> res = []"
    using e by (auto simp: kv)
  ultimately show ?case by blast
qed

lemma detect_anomalies_map:
  assumes d: "distinct (map fst data)" and k: "fst ` set data \<subseteq> fst ` set SENSOR_CONFIG"
  shows "\<exists>res. detect_anomalies data = Inr res \<and> distinct (map fst res) \<and>
           (\<forall>s v. map_of res s = Some v \<longleftrightarrow> map_of data s = Some v \<and> out_of_bounds s v) \<and>
           ((\<forall>(k, v) \<in> set data. \<not> out_of_bounds k v) \<longrightarrow> res = [])"
proof -
  let ?f = "filter (\<lambda>(k, v). out_of_bounds k v) (rev data)"
  from detect_loop_total[OF k, of "[]"] obtain res where
    r: "detect_loop data [] = Inr res" and
    m: "map_of res = (\<lambda>s. case map_of ?f s of None \<Rightarrow> map_of [] s | Some v \<Rightarrow> Some v)" and
    dr: "distinct (map fst res)" and
    e: "(\<forall>(k, v) \<in> set data. \<not> out_of_bounds k v) \<longrightarrow> res = []"
    by auto
  have df: "distinct (map fst (rev data))" using d by (simp add: rev_map[symmetric])
  have "map_of res s = Some v \<longleftrightarrow> map_of data s = Some v \<and> out_of_bounds s v" for s v
  proof -
    have "map_of res s = Some v \<longleftrightarrow> map_of ?f s = Some v"
      by (simp add: m split: option.splits)
    also have "\<dots> \<longleftrightarrow> (s, v) \<in> set ?f"
      using df by (simp add: distinct_map_filter)
    also have "\<dots> \<longleftrightarrow> (s, v) \<in> set data \<and> out_of_bounds s v" by auto
    also have "\<dots> \<longleftrightarrow> map_of data s = Some v \<and> out_of_bounds s v"
      using d by simp
    finally show ?thesis .
  qed
  with r dr e show ?thesis by (auto simp: detect_anomalies_def)
qed

lemma config_limits:
  assumes "map_of SENSOR_CONFIG s = Some limits"
  shows "\<exists>lo hi. limits = [(''min'', lo), (''max'', hi)] \<and> lo \<le> hi"
proof -
  have "limits = [(''min'', 19), (''max'', 24)] \<or>
        limits = [(''min'', 1 / 10), (''max'', 1)] \<or>
        limits = [(''min'', 110), (''max'', 125)]"
    using assms by (auto simp: SENSOR_CONFIG_def split: if_splits)
  moreover have "(19::real) \<le> 24" "(1 / 10::real) \<le> 1" "(110::real) \<le> 125"
    by simp_all
  ultimately show ?thesis by blast
qed

lemma out_of_bounds_boundary:
  assumes "map_of SENSOR_CONFIG s = Some limits"
    and "map_of limits ''min'' = Some v \<or> map_of limits ''max'' = Some v"
  shows "\<not> out_of_bounds s v"
  using config_limits[OF assms(1)] assms by (auto simp: out_of_bounds_def)

lemma out_of_bounds_within:
  assumes "map_of SENSOR_CONFIG s = Some limits" "map_of limits ''min'' = Some lo"
    "map_of limits ''max'' = Some hi" "lo \<le> v" "v \<le> hi"
  shows "\<not> out_of_bounds s v"
  using assms by (auto simp: out_of_bounds_def)


lemma out_of_bounds_iff:
  "out_of_bounds sensor v \<longleftrightarrow>
     (\<exists>limits lo hi. map_of SENSOR_CONFIG sensor = Some limits \<and>
        map_of limits ''min'' = Some lo \<and> map_of limits ''max'' = Some hi \<and>
        (v < lo \<or> hi < v))"
  by (simp only: out_of_bounds_def)

lemma detect_anomalies_general:
  assumes d: "distinct (map fst data)" and k: "fst ` set data \<subseteq> fst ` set SENSOR_CONFIG"
  shows "\<exists>anomalies. detect_anomalies data = Inr anomalies \<and>
         distinct (map fst anomalies) \<and>
         (\<forall>sensor v. map_of anomalies sensor = Some v \<longleftrightarrow>
            map_of data sensor = Some v \<and>
            (\<exists>limits lo hi. map_of SENSOR_CONFIG sensor = Some limits \<and>
               map_of limits ''min'' = Some lo \<and> map_of limits ''max'' = Some hi \<and>
               (v < lo \<or> hi < v))) \<and>
         (\<forall>sensor v limits. map_of data sensor = Some v \<and>
            map_of SENSOR_CONFIG sensor = Some limits \<and>
            (map_of limits ''min'' = Some v \<or> map_of limits ''max'' = Some v) \<longrightarrow>
            map_of anomalies sensor = None) \<and>
         ((\<forall>sensor v limits lo hi. map_of data sensor = Some v \<and>
             map_of SENSOR_CONFIG sensor = Some limits \<and>
             map_of limits ''min'' = Some lo \<and> map_of limits ''max'' = Some hi \<longrightarrow>
             lo \<le> v \<and> v \<le> hi) \<longrightarrow> anomalies = [])"
proof -
  from detect_anomalies_map[OF d k] obtain res where
    r: "detect_anomalies data = Inr res" and dr: "distinct (map fst res)" and
    m: "\<And>s v. map_of res s = Some v \<longleftrightarrow> map_of data s = Some v \<and> out_of_bounds s v" and
    e: "(\<forall>(k, v) \<in> set data. \<not> out_of_bounds k v) \<longrightarrow> res = []"
    by blast
  have c1: "\<forall>sensor v. map_of res sensor = Some v \<longleftrightarrow>
            map_of data sensor = Some v \<and>
            (\<exists>limits lo hi. map_of SENSOR_CONFIG sensor = Some limits \<and>
               map_of limits ''min'' = Some lo \<and> map_of limits ''max'' = Some hi \<and>
               (v < lo \<or> hi < v))"
    by (simp only: m out_of_bounds_iff) simp
  have c2: "\<forall>sensor v limits. map_of data sensor = Some v \<and>
            map_of SENSOR_CONFIG sensor = Some limits \<and>
            (map_of limits ''min'' = Some v \<or> map_of limits ''max'' = Some v) \<longrightarrow>
            map_of res sensor = None"
  proof (intro allI impI)
    fix s v limits
    assume h: "map_of data s = Some v \<and> map_of SENSOR_CONFIG s = Some limits \<and>
            (map_of limits ''min'' = Some v \<or> map_of limits ''max'' = Some v)"
    then have nb: "\<not> out_of_bounds s v" using out_of_bounds_boundary by blast
    show "map_of res s = None"
    proof (cases "map_of res s")
      case None
      then show ?thesis .
    next
      case (Some v')
      with m[of s v'] h have "out_of_bounds s v" by simp
      with nb show ?thesis by simp
    qed
  qed
  have c3: "(\<forall>sensor v limits lo hi. map_of data sensor = Some v \<and>
             map_of SENSOR_CONFIG sensor = Some limits \<and>
             map_of limits ''min'' = Some lo \<and> map_of limits ''max'' = Some hi \<longrightarrow>
             lo \<le> v \<and> v \<le> hi) \<longrightarrow> res = []"
  proof
    assume h: "\<forall>sensor v limits lo hi. map_of data sensor = Some v \<and>
             map_of SENSOR_CONFIG sensor = Some limits \<and>
             map_of limits ''min'' = Some lo \<and> map_of limits ''max'' = Some hi \<longrightarrow>
             lo \<le> v \<and> v \<le> hi"
    have "\<not> out_of_bounds s v" if "(s, v) \<in> set data" for s v
    proof
      assume "out_of_bounds s v"
      then obtain limits lo hi where l: "map_of SENSOR_CONFIG s = Some limits"
        "map_of limits ''min'' = Some lo" "map_of limits ''max'' = Some hi" and o: "v < lo \<or> hi < v"
        unfolding out_of_bounds_def by blast
      from that d have "map_of data s = Some v" by simp
      with h l have "lo \<le> v \<and> v \<le> hi" by blast
      with o show False by auto
    qed
    with e show "res = []" by auto
  qed
  show ?thesis
    by (intro exI[of _ res] conjI) (rule r dr c1 c2 c3)+
qed

text \<open>
  Claim C1. For a reading (a dict: distinct keys) whose sensors are all configured,
  \<open>detect_anomalies\<close> returns a dict that binds a sensor to a value exactly when the
  reading binds it to that value and the value is strictly below the configured
  \<open>min\<close> or strictly above the configured \<open>max\<close>. A value equal to \<open>min\<close> or to
  \<open>max\<close> is not flagged, a reading within bounds everywhere gives the empty dict, and
  the two readings of the specification give \<open>{temperature: 25.0}\<close> and \<open>{}\<close>.
\<close>

theorem detect_anomalies_strictly_outside:
  "(distinct (map fst data) \<and> fst ` set data \<subseteq> fst ` set SENSOR_CONFIG \<longrightarrow>
      (\<exists>anomalies. detect_anomalies data = Inr anomalies \<and>
         distinct (map fst anomalies) \<and>
         (\<forall>sensor v. map_of anomalies sensor = Some v \<longleftrightarrow>
            map_of data sensor = Some v \<and>
            (\<exists>limits lo hi. map_of SENSOR_CONFIG sensor = Some limits \<and>
               map_of limits ''min'' = Some lo \<and> map_of limits ''max'' = Some hi \<and>
               (v < lo \<or> hi < v))) \<and>
         (\<forall>sensor v limits. map_of data sensor = Some v \<and>
            map_of SENSOR_CONFIG sensor = Some limits \<and>
            (map_of limits ''min'' = Some v \<or> map_of limits ''max'' = Some v) \<longrightarrow>
            map_of anomalies sensor = None) \<and>
         ((\<forall>sensor v limits lo hi. map_of data sensor = Some v \<and>
             map_of SENSOR_CONFIG sensor = Some limits \<and>
             map_of limits ''min'' = Some lo \<and> map_of limits ''max'' = Some hi \<longrightarrow>
             lo \<le> v \<and> v \<le> hi) \<longrightarrow> anomalies = []))) \<and>
   detect_anomalies [(''temperature'', 25), (''vibration'', 1 / 2), (''voltage'', 115)] =
     Inr [(''temperature'', 25)] \<and>
   detect_anomalies [(''temperature'', 20), (''vibration'', 1 / 2), (''voltage'', 115)] = Inr []"
proof (intro conjI impI)
  assume "distinct (map fst data) \<and> fst ` set data \<subseteq> fst ` set SENSOR_CONFIG"
  then have d: "distinct (map fst data)" and k: "fst ` set data \<subseteq> fst ` set SENSOR_CONFIG"
    by simp_all
  show "\<exists>anomalies. detect_anomalies data = Inr anomalies \<and>
         distinct (map fst anomalies) \<and>
         (\<forall>sensor v. map_of anomalies sensor = Some v \<longleftrightarrow>
            map_of data sensor = Some v \<and>
            (\<exists>limits lo hi. map_of SENSOR_CONFIG sensor = Some limits \<and>
               map_of limits ''min'' = Some lo \<and> map_of limits ''max'' = Some hi \<and>
               (v < lo \<or> hi < v))) \<and>
         (\<forall>sensor v limits. map_of data sensor = Some v \<and>
            map_of SENSOR_CONFIG sensor = Some limits \<and>
            (map_of limits ''min'' = Some v \<or> map_of limits ''max'' = Some v) \<longrightarrow>
            map_of anomalies sensor = None) \<and>
         ((\<forall>sensor v limits lo hi. map_of data sensor = Some v \<and>
             map_of SENSOR_CONFIG sensor = Some limits \<and>
             map_of limits ''min'' = Some lo \<and> map_of limits ''max'' = Some hi \<longrightarrow>
             lo \<le> v \<and> v \<le> hi) \<longrightarrow> anomalies = [])"
    by (rule detect_anomalies_general[OF d k])
next
  show "detect_anomalies [(''temperature'', 25), (''vibration'', 1 / 2), (''voltage'', 115)] =
     Inr [(''temperature'', 25)]"
    by (simp add: detect_anomalies_def SENSOR_CONFIG_def getitem_def)
next
  show "detect_anomalies [(''temperature'', 20), (''vibration'', 1 / 2), (''voltage'', 115)] = Inr []"
    by (simp add: detect_anomalies_def SENSOR_CONFIG_def getitem_def)
qed


theorem detect_anomalies_strictly_outside_witness:
  "distinct (map fst [(''temperature'', 19::real), (''vibration'', 3 / 2), (''voltage'', 125)]) \<and>
   fst ` set [(''temperature'', 19::real), (''vibration'', 3 / 2), (''voltage'', 125)]
     \<subseteq> fst ` set SENSOR_CONFIG \<and>
   (\<exists>anomalies.
      detect_anomalies [(''temperature'', 19), (''vibration'', 3 / 2), (''voltage'', 125)] =
        Inr anomalies \<and>
      map_of anomalies ''temperature'' = None \<and>
      map_of anomalies ''vibration'' = Some (3 / 2) \<and>
      map_of anomalies ''voltage'' = None)"
proof -
  let ?D = "[(''temperature'', 19::real), (''vibration'', 3 / 2), (''voltage'', 125)]"
  have h: "distinct (map fst ?D) \<and> fst ` set ?D \<subseteq> fst ` set SENSOR_CONFIG"
    by (simp add: SENSOR_CONFIG_def)
  note g = detect_anomalies_strictly_outside[of ?D, THEN conjunct1, THEN mp, OF h]
  from g obtain anomalies where a:
    "detect_anomalies ?D = Inr anomalies \<and>
     distinct (map fst anomalies) \<and>
     (\<forall>sensor v. map_of anomalies sensor = Some v \<longleftrightarrow>
            map_of ?D sensor = Some v \<and>
            (\<exists>limits lo hi. map_of SENSOR_CONFIG sensor = Some limits \<and>
               map_of limits ''min'' = Some lo \<and> map_of limits ''max'' = Some hi \<and>
               (v < lo \<or> hi < v))) \<and>
     (\<forall>sensor v limits. map_of ?D sensor = Some v \<and>
            map_of SENSOR_CONFIG sensor = Some limits \<and>
            (map_of limits ''min'' = Some v \<or> map_of limits ''max'' = Some v) \<longrightarrow>
            map_of anomalies sensor = None) \<and>
     ((\<forall>sensor v limits lo hi. map_of ?D sensor = Some v \<and>
             map_of SENSOR_CONFIG sensor = Some limits \<and>
             map_of limits ''min'' = Some lo \<and> map_of limits ''max'' = Some hi \<longrightarrow>
             lo \<le> v \<and> v \<le> hi) \<longrightarrow> anomalies = [])" ..
  note r = a[THEN conjunct1]
  note m = a[THEN conjunct2, THEN conjunct2, THEN conjunct1, rule_format]
  note b = a[THEN conjunct2, THEN conjunct2, THEN conjunct2, THEN conjunct1, rule_format]
  have t: "map_of anomalies ''temperature'' = None"
    by (rule b[of _ 19 "[(''min'', 19), (''max'', 24)]"]) (simp add: SENSOR_CONFIG_def)
  have vo: "map_of anomalies ''voltage'' = None"
    by (rule b[of _ 125 "[(''min'', 110), (''max'', 125)]"]) (simp add: SENSOR_CONFIG_def)
  have vb: "map_of anomalies ''vibration'' = Some (3 / 2)"
  proof (rule m[THEN iffD2], intro conjI exI)
    show "map_of ?D ''vibration'' = Some (3 / 2)" by simp
    show "map_of SENSOR_CONFIG ''vibration'' = Some [(''min'', 1 / 10), (''max'', 1)]"
      by (simp add: SENSOR_CONFIG_def)
    show "map_of [(''min'', 1 / 10 :: real), (''max'', 1)] ''min'' = Some (1 / 10)" by simp
    show "map_of [(''min'', 1 / 10 :: real), (''max'', 1)] ''max'' = Some 1" by simp
    show "(3 / 2 :: real) < 1 / 10 \<or> 1 < (3 / 2 :: real)" by simp
  qed
  show ?thesis
    by (intro conjI exI[of _ anomalies]) (rule h[THEN conjunct1] h[THEN conjunct2] r t vb vo)+
qed

section \<open>The health summariser\<close>

lemma collect_values_cases:
  "collect_values sensor lg =
     (if \<forall>entry \<in> set lg. sensor \<in> fst ` set entry
      then Inr (map (\<lambda>entry. the (map_of entry sensor)) lg)
      else Inl (KeyError sensor))"
proof (induction lg)
  case Nil
  then show ?case by simp
next
  case (Cons entry lg)
  show ?case
  proof (cases "map_of entry sensor")
    case None
    then have "sensor \<notin> fst ` set entry" by (simp add: map_of_eq_None_iff)
    with None show ?thesis by (simp add: getitem_def)
  next
    case (Some v)
    then have "sensor \<in> fst ` set entry" by (metis map_of_eq_None_iff option.distinct(1))
    with Some Cons.IH show ?thesis by (simp add: getitem_def)
  qed
qed









lemma values_list_all2:
  assumes "\<forall>entry \<in> set lg. sensor \<in> fst ` set entry"
  shows "list_all2 (\<lambda>entry v. map_of entry sensor = Some v) lg
           (map (\<lambda>entry. the (map_of entry sensor)) lg)"
  using assms
proof (induction lg)
  case Nil
  show ?case by simp
next
  case (Cons entry lg)
  then have "sensor \<in> fst ` set entry" by simp
  then obtain v where "map_of entry sensor = Some v"
    by (metis map_of_eq_None_iff not_Some_eq)
  with Cons show ?case by simp
qed

lemma map_of_summary:
  assumes "sensor \<in> fst ` set SENSOR_CONFIG"
  shows "map_of [(''temperature'', f ''temperature''), (''vibration'', f ''vibration''),
                 (''voltage'', f ''voltage'')] sensor = Some (f sensor)"
  using assms by (rule config_cases) simp_all

lemma round_py_int: "round_py (of_int n / 100) 2 = of_int n / 100"
  by (simp add: round_py_def round_half_even_def)









section \<open>The sampler\<close>

lemma round_half_even_cases:
  "round_half_even x = \<lfloor>x\<rfloor> \<or> (round_half_even x = \<lfloor>x\<rfloor> + 1 \<and> of_int \<lfloor>x\<rfloor> < x)"
  by (auto simp: round_half_even_def Let_def)

lemma round_half_even_bounds:
  assumes "of_int a \<le> x" "x \<le> of_int b"
  shows "a \<le> round_half_even x \<and> round_half_even x \<le> b"
proof -
  have lo: "a \<le> \<lfloor>x\<rfloor>" using assms(1) by (simp add: le_floor_iff)
  have hi: "\<lfloor>x\<rfloor> \<le> b" using assms(2) by (simp add: floor_le_iff)
  from round_half_even_cases[of x] show ?thesis
  proof
    assume "round_half_even x = \<lfloor>x\<rfloor>"
    with lo hi show ?thesis by simp
  next
    assume c: "round_half_even x = \<lfloor>x\<rfloor> + 1 \<and> of_int \<lfloor>x\<rfloor> < x"
    then have "of_int \<lfloor>x\<rfloor> < (of_int b :: real)" using assms(2) by linarith
    then have "\<lfloor>x\<rfloor> < b" by simp
    with c lo show ?thesis by simp
  qed
qed




lemma generate_sensor_data_eq:
  "generate_sensor_data rs =
     ([(''temperature'', round_py (fst (random_uniform (37 / 2) (49 / 2) rs)) 2),
       (''vibration'', round_py (fst (random_uniform (1 / 20) (11 / 10) (\<lambda>i. rs (i + 1)))) 2),
       (''voltage'', round_py (fst (random_uniform 108 127 (\<lambda>i. rs (i + 2)))) 2)],
      \<lambda>i. rs (i + 3))"
  by (simp add: generate_sensor_data_def random_uniform_def random_random_def numeral_3_eq_3)

lemma generate_sensor_data_keys:
  "map fst (fst (generate_sensor_data rs)) = [''temperature'', ''vibration'', ''voltage'']"
  by (simp add: generate_sensor_data_eq)



section \<open>The health summariser in double precision\<close>

lemma powr_of_int_powi: "(2::real) powr of_int e = 2 powi e"
  by (simp add: powr_int power_int_def inverse_eq_divide power_divide)

lemma floor_log2_bounds:
  assumes "x \<noteq> 0"
  shows "2 powi \<lfloor>log 2 \<bar>x\<bar>\<rfloor> \<le> \<bar>x\<bar>" and "\<bar>x\<bar> < 2 powi (\<lfloor>log 2 \<bar>x\<bar>\<rfloor> + 1)"
proof -
  have p: "0 < \<bar>x\<bar>" using assms by simp
  from floor_log_eq_powr_iff[OF p, of 2 "\<lfloor>log 2 \<bar>x\<bar>\<rfloor>"]
  have "2 powr of_int \<lfloor>log 2 \<bar>x\<bar>\<rfloor> \<le> \<bar>x\<bar> \<and> \<bar>x\<bar> < 2 powr (of_int \<lfloor>log 2 \<bar>x\<bar>\<rfloor> + 1)"
    by simp
  moreover have "(2::real) powr (of_int \<lfloor>log 2 \<bar>x\<bar>\<rfloor> + 1) = 2 powi (\<lfloor>log 2 \<bar>x\<bar>\<rfloor> + 1)"
    using powr_of_int_powi[of "\<lfloor>log 2 \<bar>x\<bar>\<rfloor> + 1"] by simp
  ultimately show "2 powi \<lfloor>log 2 \<bar>x\<bar>\<rfloor> \<le> \<bar>x\<bar>" and "\<bar>x\<bar> < 2 powi (\<lfloor>log 2 \<bar>x\<bar>\<rfloor> + 1)"
    by (simp_all add: powr_of_int_powi)
qed

lemma floor_log2_eq:
  assumes "2 powi e \<le> \<bar>x\<bar>" "\<bar>x\<bar> < 2 powi (e + 1)"
  shows "\<lfloor>log 2 \<bar>x\<bar>\<rfloor> = e"
proof -
  have "(0::real) < 2 powi e" by simp
  with assms(1) have p: "0 < \<bar>x\<bar>" by linarith
  have "2 powr of_int e \<le> \<bar>x\<bar> \<and> \<bar>x\<bar> < 2 powr (of_int e + 1)"
    using assms powr_of_int_powi[of e] powr_of_int_powi[of "e + 1"] by simp
  with floor_log_eq_powr_iff[OF p, of 2 e] show ?thesis by simp
qed

lemma to_double_eval:
  assumes "2 powi e \<le> \<bar>x\<bar>" "\<bar>x\<bar> < 2 powi (e + 1)" "- 1022 \<le> e"
  shows "to_double x = of_int (round_half_even (x / 2 powi (e - 52))) * 2 powi (e - 52)"
proof -
  have pos: "(0::real) < 2 powi e" by simp
  have "x \<noteq> 0"
  proof
    assume "x = 0"
    with assms(1) have "2 powi e \<le> (0::real)" by simp
    with pos show False by linarith
  qed
  moreover have "double_exponent x = e"
    using floor_log2_eq[OF assms(1,2)] assms(3) by (simp add: double_exponent_def)
  ultimately show ?thesis by (simp add: to_double_def double_ulp_def)
qed

lemma round_half_even_error:
  "\<bar>of_int (round_half_even y) - y\<bar> \<le> 1 / 2 \<and>
   (\<bar>of_int (round_half_even y) - y\<bar> = 1 / 2 \<longrightarrow> even (round_half_even y))"
proof -
  define d where "d = y - of_int \<lfloor>y\<rfloor>"
  have d: "0 \<le> d" "d < 1" unfolding d_def by linarith+
  have y: "y = of_int \<lfloor>y\<rfloor> + d" unfolding d_def by simp
  consider "d < 1 / 2" | "1 / 2 < d" | "d = 1 / 2" "even \<lfloor>y\<rfloor>" | "d = 1 / 2" "odd \<lfloor>y\<rfloor>"
    by fastforce
  then show ?thesis
  proof cases
    case 1
    then have r: "round_half_even y = \<lfloor>y\<rfloor>"
      by (simp add: round_half_even_def Let_def d_def)
    have "\<bar>of_int \<lfloor>y\<rfloor> - y\<bar> = d" using d y by linarith
    with 1 show ?thesis unfolding r by simp
  next
    case 2
    then have r: "round_half_even y = \<lfloor>y\<rfloor> + 1"
      by (simp add: round_half_even_def Let_def d_def)
    have "\<bar>of_int (\<lfloor>y\<rfloor> + 1) - y\<bar> = 1 - d" unfolding d_def of_int_add of_int_1 by linarith
    with 2 show ?thesis unfolding r by simp
  next
    case 3
    then have r: "round_half_even y = \<lfloor>y\<rfloor>"
      by (simp add: round_half_even_def Let_def d_def)
    have "\<bar>of_int \<lfloor>y\<rfloor> - y\<bar> = d" using d y by linarith
    with 3 show ?thesis unfolding r by simp
  next
    case 4
    then have r: "round_half_even y = \<lfloor>y\<rfloor> + 1"
      by (simp add: round_half_even_def Let_def d_def)
    have "\<bar>of_int (\<lfloor>y\<rfloor> + 1) - y\<bar> = 1 - d" unfolding d_def of_int_add of_int_1 by linarith
    with 4 show ?thesis unfolding r by simp
  qed
qed

lemma double_ulp_pos: "0 < double_ulp x"
  by (simp add: double_ulp_def)

lemma double_exponent_bounds:
  assumes "x \<noteq> 0"
  shows "\<bar>x\<bar> < 2 powi (double_exponent x + 1)" and "- 1022 \<le> double_exponent x"
    and "\<lfloor>log 2 \<bar>x\<bar>\<rfloor> \<le> double_exponent x"
proof -
  show "- 1022 \<le> double_exponent x" "\<lfloor>log 2 \<bar>x\<bar>\<rfloor> \<le> double_exponent x"
    by (simp_all add: double_exponent_def)
  then have "(2::real) powi (\<lfloor>log 2 \<bar>x\<bar>\<rfloor> + 1) \<le> 2 powi (double_exponent x + 1)"
    by (intro power_int_increasing) simp_all
  with floor_log2_bounds(2)[OF assms] show "\<bar>x\<bar> < 2 powi (double_exponent x + 1)"
    by linarith
qed

lemma to_double_abs_le:
  assumes "x \<noteq> 0"
  shows "\<bar>to_double x\<bar> \<le> 2 powi (double_exponent x + 1)"
proof -
  let ?e = "double_exponent x"
  let ?u = "double_ulp x"
  have u: "0 < ?u" by (rule double_ulp_pos)
  have p: "(2::real) powi (?e + 1) = 2 ^ 53 * ?u"
  proof -
    have "?e + 1 = 53 + (?e - 52)" by simp
    then have "(2::real) powi (?e + 1) = 2 powi (53 + (?e - 52))" by (rule arg_cong)
    also have "\<dots> = 2 powi 53 * 2 powi (?e - 52)" by (rule power_int_add) simp
    finally show ?thesis by (simp add: double_ulp_def)
  qed
  have "\<bar>x\<bar> < 2 ^ 53 * ?u"
    using double_exponent_bounds(1)[OF assms] by (simp only: p)
  then have "\<bar>x\<bar> / ?u < 2 ^ 53" using u by (simp add: pos_divide_less_eq)
  moreover have "\<bar>?u\<bar> = ?u" using u by simp
  ultimately have "\<bar>x / ?u\<bar> < 2 ^ 53" by (simp only: abs_divide)
  then have "of_int (- (2 ^ 53)) \<le> x / ?u" "x / ?u \<le> of_int (2 ^ 53)" by (simp_all add: abs_if split: if_splits)
  then have "- (2 ^ 53) \<le> round_half_even (x / ?u) \<and> round_half_even (x / ?u) \<le> 2 ^ 53"
    by (rule round_half_even_bounds)
  then have "\<bar>real_of_int (round_half_even (x / ?u))\<bar> \<le> 2 ^ 53" by (simp add: abs_le_iff)
  then have "\<bar>real_of_int (round_half_even (x / ?u))\<bar> * ?u \<le> 2 ^ 53 * ?u"
    using u by (simp add: mult_right_mono)
  moreover have "\<bar>to_double x\<bar> = \<bar>real_of_int (round_half_even (x / ?u))\<bar> * ?u"
    using assms u by (simp add: to_double_def abs_mult)
  ultimately show ?thesis by (simp only: p)
qed

lemma to_double_le_pow:
  assumes "\<bar>x\<bar> < 2 ^ k"
  shows "\<bar>to_double x\<bar> \<le> 2 ^ k"
proof (cases "x = 0")
  case True
  then show ?thesis by (simp add: to_double_def)
next
  case False
  have "2 powi \<lfloor>log 2 \<bar>x\<bar>\<rfloor> < (2::real) powi int k"
    using floor_log2_bounds(1)[OF False] assms by simp
  then have "\<lfloor>log 2 \<bar>x\<bar>\<rfloor> < int k"
    by (rule power_int_le_imp_less_exp[rotated]) simp_all
  then have "double_exponent x + 1 \<le> int k" by (simp add: double_exponent_def)
  then have "(2::real) powi (double_exponent x + 1) \<le> 2 powi int k"
    by (intro power_int_increasing) simp_all
  with to_double_abs_le[OF False] show ?thesis by simp
qed

lemma to_double_ge_pow:
  assumes "2 ^ k \<le> x"
  shows "2 ^ k \<le> to_double x"
proof -
  have kp: "(0::real) < 2 ^ k" by simp
  with assms have x: "0 < x" "x \<noteq> 0" "\<bar>x\<bar> = x" by linarith+
  let ?e = "\<lfloor>log 2 \<bar>x\<bar>\<rfloor>"
  have lt: "(2::real) powi int k < 2 powi (?e + 1)"
    using floor_log2_bounds(2)[OF x(2)] assms x(3) by simp
  have "int k < ?e + 1"
  proof (rule ccontr)
    assume "\<not> int k < ?e + 1"
    then have "?e + 1 \<le> int k" by simp
    then have "(2::real) powi (?e + 1) \<le> 2 powi int k"
      by (intro power_int_increasing) simp_all
    with lt show False by linarith
  qed
  then have ke: "int k \<le> ?e" by simp
  then have de: "double_exponent x = ?e" by (simp add: double_exponent_def)
  let ?u = "double_ulp x"
  have u: "0 < ?u" by (rule double_ulp_pos)
  have p: "(2::real) powi ?e = 2 ^ 52 * ?u"
  proof -
    have "?e = 52 + (?e - 52)" by simp
    then have "(2::real) powi ?e = 2 powi (52 + (?e - 52))" by (rule arg_cong)
    also have "\<dots> = 2 powi 52 * 2 powi (?e - 52)" by (rule power_int_add) simp
    finally show ?thesis by (simp add: double_ulp_def de)
  qed
  have "2 powi ?e \<le> \<bar>x\<bar>" by (rule floor_log2_bounds(1)[OF x(2)])
  then have "2 ^ 52 * ?u \<le> \<bar>x\<bar>" by (simp only: p)
  then have "2 ^ 52 * ?u \<le> x" using x(3) by simp
  then have "of_int (2 ^ 52) \<le> x / ?u" using u by (simp add: pos_le_divide_eq)
  moreover have "x / ?u \<le> of_int \<lceil>x / ?u\<rceil>" by linarith
  ultimately have "2 ^ 52 \<le> round_half_even (x / ?u)"
    using round_half_even_bounds[of "2 ^ 52" "x / ?u" "\<lceil>x / ?u\<rceil>"] by simp
  then have "(2 ^ 52 :: real) \<le> of_int (round_half_even (x / ?u))"
    by (metis of_int_le_iff of_int_numeral of_int_power)
  then have "2 ^ 52 * ?u \<le> of_int (round_half_even (x / ?u)) * ?u"
    using u by (simp add: mult_right_mono)
  then have "2 powi ?e \<le> to_double x" using x(2) by (simp add: to_double_def p)
  moreover have "(2::real) powi int k \<le> 2 powi ?e"
    using ke by (intro power_int_increasing) simp_all
  ultimately show ?thesis by simp
qed

lemma as_double_ok:
  assumes "\<bar>x\<bar> < 2 ^ 1023"
  shows "as_double x = Inr (to_double x)"
proof -
  have "\<bar>to_double x\<bar> \<le> 2 ^ 1023" using assms by (rule to_double_le_pow)
  moreover have "(2::real) ^ 1023 < 2 ^ 1024" by simp
  ultimately have "\<not> 2 ^ 1024 \<le> \<bar>to_double x\<bar>" by linarith
  then show ?thesis by (simp add: as_double_def)
qed

lemma as_double_overflow:
  assumes "2 ^ 1024 \<le> x"
  shows "as_double x = Inl OverflowError"
proof -
  have "2 ^ 1024 \<le> to_double x" using assms by (rule to_double_ge_pow)
  then have "2 ^ 1024 \<le> \<bar>to_double x\<bar>" by linarith
  then show ?thesis by (simp add: as_double_def)
qed

lemma as_double_error: "as_double x = Inl e \<Longrightarrow> e = OverflowError"
  by (simp add: as_double_def split: if_splits)

lemma health_loop_f64_step:
  assumes "collect_values sensor lg = Inr vals"
  shows "health_loop_f64 (sensor # sensors) lg status =
           (case summary_f64 vals of
              Inl e \<Rightarrow> Inl e
            | Inr su \<Rightarrow> health_loop_f64 sensors lg (AList.update sensor su status))"
  using assms by (simp add: summary_f64_def split: sum.splits)

lemma summary_f64_error:
  assumes "vals \<noteq> []" "summary_f64 vals = Inl e"
  shows "e = OverflowError"
proof -
  have l: "\<not> length vals < 1" using assms(1) by (cases vals) simp_all
  have m: "mean_f64 vals = Inl e' \<Longrightarrow> e' = OverflowError" for e'
    using l by (simp add: mean_f64_def as_double_error)
  have s: "Suc 0 < length vals \<Longrightarrow> stdev_f64 vals = Inl e' \<Longrightarrow> e' = OverflowError" for e'
    by (simp add: stdev_f64_def Let_def as_double_error)
  have r: "round_f64 x 2 = Inl e' \<Longrightarrow> e' = OverflowError" for x e'
    by (simp add: round_f64_def as_double_error)
  from assms(2) show ?thesis
    unfolding summary_f64_def
    by (auto split: sum.splits if_splits dest: m s r)
qed

lemma sum_list_abs_bound:
  fixes vals :: "real list"
  assumes "\<forall>v \<in> set vals. \<bar>v\<bar> \<le> B"
  shows "\<bar>sum_list vals\<bar> \<le> real (length vals) * B"
  using assms
proof (induction vals)
  case Nil
  show ?case by simp
next
  case (Cons v vals)
  then have "\<bar>v\<bar> \<le> B" "\<bar>sum_list vals\<bar> \<le> real (length vals) * B" by simp_all
  then have "\<bar>v + sum_list vals\<bar> \<le> B + real (length vals) * B" by linarith
  then show ?case by (simp add: algebra_simps)
qed

lemma mean_bound:
  fixes vals :: "real list"
  assumes "vals \<noteq> []" "\<forall>v \<in> set vals. \<bar>v\<bar> \<le> B"
  shows "\<bar>sum_list vals / real (length vals)\<bar> \<le> B"
proof -
  have n: "0 < real (length vals)" using assms(1) by simp
  have "\<bar>sum_list vals\<bar> / real (length vals) \<le> B"
    using sum_list_abs_bound[OF assms(2)] n by (simp add: pos_divide_le_eq mult.commute)
  then show ?thesis using n by simp
qed

lemma sum_list_le_bound:
  fixes xs :: "real list"
  assumes "\<forall>x \<in> set xs. x \<le> C"
  shows "sum_list xs \<le> real (length xs) * C"
  using assms
proof (induction xs)
  case Nil
  show ?case by simp
next
  case (Cons x xs)
  then have "x \<le> C" "sum_list xs \<le> real (length xs) * C" by simp_all
  then have "x + sum_list xs \<le> C + real (length xs) * C" by linarith
  then show ?case by (simp add: algebra_simps)
qed

lemma variance_bound:
  fixes vals :: "real list"
  assumes n: "2 \<le> length vals" and b: "\<forall>v \<in> set vals. \<bar>v\<bar> \<le> B" and c: "\<bar>c\<bar> \<le> B"
  shows "sum_list (map (\<lambda>x. (x - c)\<^sup>2) vals) / real (length vals - 1) \<le> 8 * B\<^sup>2"
proof -
  have B: "0 \<le> B" using c by linarith
  have "\<forall>y \<in> set (map (\<lambda>x. (x - c)\<^sup>2) vals). y \<le> 4 * B\<^sup>2"
  proof
    fix y
    assume "y \<in> set (map (\<lambda>x. (x - c)\<^sup>2) vals)"
    then obtain x where x: "x \<in> set vals" "y = (x - c)\<^sup>2" by auto
    with b have "\<bar>x\<bar> \<le> B" by simp
    with c have "\<bar>x - c\<bar> \<le> 2 * B" by linarith
    then have "\<bar>x - c\<bar> \<le> \<bar>2 * B\<bar>" using B by simp
    then have "(x - c)\<^sup>2 \<le> (2 * B)\<^sup>2" by (simp only: abs_le_square_iff)
    then show "y \<le> 4 * B\<^sup>2" by (simp add: x(2) power_mult_distrib)
  qed
  from sum_list_le_bound[OF this]
  have s: "sum_list (map (\<lambda>x. (x - c)\<^sup>2) vals) \<le> real (length vals) * (4 * B\<^sup>2)" by simp
  have l: "real (length vals) \<le> 2 * real (length vals - 1)" using n by simp
  have "0 \<le> 4 * B\<^sup>2" by simp
  then have "real (length vals) * (4 * B\<^sup>2) \<le> 2 * real (length vals - 1) * (4 * B\<^sup>2)"
    using l by (rule mult_right_mono[rotated])
  with s have "sum_list (map (\<lambda>x. (x - c)\<^sup>2) vals) \<le> (8 * B\<^sup>2) * real (length vals - 1)"
    by (simp add: algebra_simps)
  moreover have "0 < real (length vals - 1)" using n by simp
  ultimately show ?thesis by (simp add: pos_divide_le_eq)
qed

lemma stdev_bound:
  fixes vals :: "real list"
  assumes n: "2 \<le> length vals" and b: "\<forall>v \<in> set vals. \<bar>v\<bar> \<le> B" and c: "\<bar>c\<bar> \<le> B"
  shows "\<bar>sqrt (sum_list (map (\<lambda>x. (x - c)\<^sup>2) vals) / real (length vals - 1))\<bar> \<le> 3 * B"
proof -
  have B: "0 \<le> B" using c by linarith
  let ?v = "sum_list (map (\<lambda>x. (x - c)\<^sup>2) vals) / real (length vals - 1)"
  have "?v \<le> 8 * B\<^sup>2" using n b c by (rule variance_bound)
  also have "\<dots> \<le> (3 * B)\<^sup>2" by (simp add: power_mult_distrib)
  finally have "sqrt ?v \<le> 3 * B" using B by (intro real_le_lsqrt) simp_all
  moreover have "0 \<le> ?v" by (intro divide_nonneg_nonneg sum_list_nonneg) auto
  ultimately show ?thesis by simp
qed

lemma round_py_2_error:
  "\<bar>round_py x 2 - x\<bar> \<le> 1 / 200"
proof -
  have "\<bar>of_int (round_half_even (x * 100)) - x * 100\<bar> \<le> 1 / 2"
    using round_half_even_error[of "x * 100"] by simp
  then have "\<bar>(of_int (round_half_even (x * 100)) - x * 100) / 100\<bar> \<le> (1 / 2) / 100"
    by (simp only: abs_divide) simp
  then show ?thesis by (simp add: round_py_def diff_divide_distrib)
qed

lemma round_f64_ok:
  assumes "\<bar>x\<bar> \<le> 2 ^ 1002"
  shows "round_f64 x 2 = Inr (to_double (round_py x 2))"
proof -
  have "\<bar>round_py x 2\<bar> \<le> \<bar>x\<bar> + 1 / 200" using round_py_2_error[of x] by linarith
  also have "\<dots> \<le> 2 ^ 1002 + 1" using assms by simp
  also have "\<dots> < (2::real) ^ 1023" by simp
  finally show ?thesis unfolding round_f64_def by (rule as_double_ok)
qed

lemma to_double_bounded:
  assumes "\<bar>x\<bar> \<le> 3 * 2 ^ 1000"
  shows "as_double x = Inr (to_double x)" and "\<bar>to_double x\<bar> \<le> 2 ^ 1002"
proof -
  have "(3::real) * 2 ^ 1000 < 2 ^ 1002" by simp
  with assms have lt: "\<bar>x\<bar> < 2 ^ 1002" by linarith
  then show "\<bar>to_double x\<bar> \<le> 2 ^ 1002" by (rule to_double_le_pow)
  have "(2::real) ^ 1002 < 2 ^ 1023" by simp
  with lt have "\<bar>x\<bar> < 2 ^ 1023" by linarith
  then show "as_double x = Inr (to_double x)" by (rule as_double_ok)
qed

lemma summary_f64_value:
  assumes ne: "vals \<noteq> []" and b: "\<forall>v \<in> set vals. \<bar>v\<bar> \<le> 2 ^ 1000"
  shows "summary_f64 vals =
     Inr [(''avg'', to_double (round_py (to_double (sum_list vals / real (length vals))) 2)),
          (''std_dev'',
             if 2 \<le> length vals
             then to_double (round_py (to_double (sqrt
                    (sum_list (map (\<lambda>x. (x - sum_list vals / real (length vals))\<^sup>2) vals)
                       / real (length vals - 1)))) 2)
             else 0)]"
proof -
  let ?c = "sum_list vals / real (length vals)"
  let ?sd = "sqrt (sum_list (map (\<lambda>x. (x - ?c)\<^sup>2) vals) / real (length vals - 1))"
  have l: "\<not> length vals < 1" using ne by (cases vals) simp_all
  have c: "\<bar>?c\<bar> \<le> 2 ^ 1000" using ne b by (rule mean_bound)
  then have c3: "\<bar>?c\<bar> \<le> 3 * 2 ^ 1000" by simp
  have m: "mean_f64 vals = Inr (to_double ?c)"
    using l to_double_bounded(1)[OF c3] by (simp add: mean_f64_def)
  have a: "round_f64 (to_double ?c) 2 = Inr (to_double (round_py (to_double ?c) 2))"
    using to_double_bounded(2)[OF c3] by (rule round_f64_ok)
  show ?thesis
  proof (cases "2 \<le> length vals")
    case True
    then have g: "1 < length vals" "\<not> length vals < 2" by simp_all
    have sb: "\<bar>?sd\<bar> \<le> 3 * 2 ^ 1000" using True b c by (rule stdev_bound)
    have s: "stdev_f64 vals = Inr (to_double ?sd)"
      using g to_double_bounded(1)[OF sb] by (simp add: stdev_f64_def Let_def)
    have r: "round_f64 (to_double ?sd) 2 = Inr (to_double (round_py (to_double ?sd) 2))"
      using to_double_bounded(2)[OF sb] by (rule round_f64_ok)
    show ?thesis by (simp only: summary_f64_def m a s r g True if_True sum.case)
  next
    case False
    then have "\<not> 1 < length vals" by simp
    then show ?thesis using False by (simp only: summary_f64_def m a if_False sum.case)
  qed
qed

lemma summary_f64_bounded:
  assumes "vals \<noteq> []" "\<forall>v \<in> set vals. \<bar>v\<bar> \<le> 2 ^ 1000"
  shows "summary_f64 vals = Inr (summary_of_f64 vals)"
  unfolding summary_of_f64_def using assms by (rule summary_f64_value)

lemma health_status_f64_unfold:
  assumes hs: "\<forall>entry \<in> set lg. \<forall>sensor \<in> fst ` set SENSOR_CONFIG. sensor \<in> fst ` set entry"
  shows "health_status_f64 lg =
     (case summary_f64 (map (\<lambda>entry. the (map_of entry ''temperature'')) lg) of
        Inl e \<Rightarrow> Inl e
      | Inr s1 \<Rightarrow>
          (case summary_f64 (map (\<lambda>entry. the (map_of entry ''vibration'')) lg) of
             Inl e \<Rightarrow> Inl e
           | Inr s2 \<Rightarrow>
               (case summary_f64 (map (\<lambda>entry. the (map_of entry ''voltage'')) lg) of
                  Inl e \<Rightarrow> Inl e
                | Inr s3 \<Rightarrow>
                    Inr [(''temperature'', s1), (''vibration'', s2), (''voltage'', s3)])))"
proof -
  have c: "collect_values sensor lg = Inr (map (\<lambda>entry. the (map_of entry sensor)) lg)"
    if "sensor \<in> fst ` set SENSOR_CONFIG" for sensor
    using hs that by (auto simp: collect_values_cases)
  have k: "''temperature'' \<in> fst ` set SENSOR_CONFIG" "''vibration'' \<in> fst ` set SENSOR_CONFIG"
    "''voltage'' \<in> fst ` set SENSOR_CONFIG"
    by (simp_all add: SENSOR_CONFIG_def)
  show ?thesis
    unfolding health_status_f64_def config_keys
    by (simp only: health_loop_f64_step[OF c[OF k(1)]] health_loop_f64_step[OF c[OF k(2)]]
        health_loop_f64_step[OF c[OF k(3)]] health_loop_f64.simps(1) split: sum.splits) simp
qed

lemma health_status_f64_error:
  assumes ne: "lg \<noteq> []"
    and hs: "\<forall>entry \<in> set lg. \<forall>sensor \<in> fst ` set SENSOR_CONFIG. sensor \<in> fst ` set entry"
    and e: "health_status_f64 lg = Inl e"
  shows "e = OverflowError"
proof -
  have n: "map g lg \<noteq> []" for g :: "reading \<Rightarrow> real" using ne by simp
  from e show ?thesis
    unfolding health_status_f64_unfold[OF hs]
    by (auto split: sum.splits dest: summary_f64_error[OF n])
qed

lemma health_status_f64_value:
  assumes ne: "lg \<noteq> []"
    and hb: "\<forall>entry \<in> set lg. \<forall>sensor \<in> fst ` set SENSOR_CONFIG.
               \<exists>v. map_of entry sensor = Some v \<and> \<bar>v\<bar> \<le> 2 ^ 1000"
  shows "health_status_f64 lg =
           Inr [(''temperature'', summary_of_f64 (map (\<lambda>entry. the (map_of entry ''temperature'')) lg)),
                (''vibration'', summary_of_f64 (map (\<lambda>entry. the (map_of entry ''vibration'')) lg)),
                (''voltage'', summary_of_f64 (map (\<lambda>entry. the (map_of entry ''voltage'')) lg))]"
proof -
  have hs: "\<forall>entry \<in> set lg. \<forall>sensor \<in> fst ` set SENSOR_CONFIG. sensor \<in> fst ` set entry"
  proof (intro ballI)
    fix entry sensor
    assume "entry \<in> set lg" "sensor \<in> fst ` set SENSOR_CONFIG"
    with hb obtain v where "map_of entry sensor = Some v" by blast
    then show "sensor \<in> fst ` set entry" by (metis map_of_eq_None_iff option.distinct(1))
  qed
  have n: "map g lg \<noteq> []" for g :: "reading \<Rightarrow> real" using ne by simp
  have b: "\<forall>v \<in> set (map (\<lambda>entry. the (map_of entry sensor)) lg). \<bar>v\<bar> \<le> 2 ^ 1000"
    if "sensor \<in> fst ` set SENSOR_CONFIG" for sensor
  proof
    fix v
    assume "v \<in> set (map (\<lambda>entry. the (map_of entry sensor)) lg)"
    then obtain entry where en: "entry \<in> set lg" "v = the (map_of entry sensor)" by auto
    with hb that obtain v' where "map_of entry sensor = Some v'" "\<bar>v'\<bar> \<le> 2 ^ 1000" by blast
    with en(2) show "\<bar>v\<bar> \<le> 2 ^ 1000" by simp
  qed
  have k: "''temperature'' \<in> fst ` set SENSOR_CONFIG" "''vibration'' \<in> fst ` set SENSOR_CONFIG"
    "''voltage'' \<in> fst ` set SENSOR_CONFIG"
    by (simp_all add: SENSOR_CONFIG_def)
  show ?thesis
    unfolding health_status_f64_unfold[OF hs]
    by (simp only: summary_f64_bounded[OF n b[OF k(1)]] summary_f64_bounded[OF n b[OF k(2)]]
        summary_f64_bounded[OF n b[OF k(3)]] sum.case)
qed

lemma round_py_2_nearest:
  "\<exists>k::int. \<bar>of_int k - 100 * x\<bar> \<le> 1 / 2 \<and> (\<bar>of_int k - 100 * x\<bar> = 1 / 2 \<longrightarrow> even k) \<and>
     to_double (round_py x 2) = to_double (of_int k / 100)"
proof (intro exI[of _ "round_half_even (x * 100)"] conjI)
  show "\<bar>of_int (round_half_even (x * 100)) - 100 * x\<bar> \<le> 1 / 2"
    using round_half_even_error[of "x * 100"] by (simp add: mult.commute)
  show "\<bar>of_int (round_half_even (x * 100)) - 100 * x\<bar> = 1 / 2 \<longrightarrow> even (round_half_even (x * 100))"
    using round_half_even_error[of "x * 100"] by (simp add: mult.commute)
  show "to_double (round_py x 2) = to_double (of_int (round_half_even (x * 100)) / 100)"
    by (simp add: round_py_def)
qed

lemma health_status_f64_general:
  assumes ne: "lg \<noteq> []"
    and hb: "\<forall>entry \<in> set lg. \<forall>sensor \<in> fst ` set SENSOR_CONFIG.
               \<exists>v. map_of entry sensor = Some v \<and> \<bar>v\<bar> \<le> 2 ^ 1000"
  shows "\<exists>status. health_status_f64 lg = Inr status \<and>
       (\<forall>sensor \<in> fst ` set SENSOR_CONFIG.
          \<exists>vals avg sd. list_all2 (\<lambda>entry v. map_of entry sensor = Some v) lg vals \<and>
            map_of status sensor = Some [(''avg'', avg), (''std_dev'', sd)] \<and>
            (\<exists>k::int. \<bar>of_int k - 100 * to_double (sum_list vals / real (length lg))\<bar> \<le> 1 / 2 \<and>
               (\<bar>of_int k - 100 * to_double (sum_list vals / real (length lg))\<bar> = 1 / 2 \<longrightarrow> even k) \<and>
               avg = to_double (of_int k / 100)) \<and>
            (if 2 \<le> length lg
             then \<exists>k::int.
                    \<bar>of_int k - 100 * to_double (sqrt
                        (sum_list (map (\<lambda>x. (x - sum_list vals / real (length lg))\<^sup>2) vals)
                           / real (length lg - 1)))\<bar> \<le> 1 / 2 \<and>
                    (\<bar>of_int k - 100 * to_double (sqrt
                        (sum_list (map (\<lambda>x. (x - sum_list vals / real (length lg))\<^sup>2) vals)
                           / real (length lg - 1)))\<bar> = 1 / 2 \<longrightarrow> even k) \<and>
                    sd = to_double (of_int k / 100)
             else sd = 0))"
proof -
  let ?st = "[(''temperature'', summary_of_f64 (map (\<lambda>entry. the (map_of entry ''temperature'')) lg)),
              (''vibration'', summary_of_f64 (map (\<lambda>entry. the (map_of entry ''vibration'')) lg)),
              (''voltage'', summary_of_f64 (map (\<lambda>entry. the (map_of entry ''voltage'')) lg))]"
  have v: "health_status_f64 lg = Inr ?st"
    using ne hb by (rule health_status_f64_value)
  have per: "\<exists>vals avg sd. list_all2 (\<lambda>entry v. map_of entry sensor = Some v) lg vals \<and>
            map_of ?st sensor = Some [(''avg'', avg), (''std_dev'', sd)] \<and>
            (\<exists>k::int. \<bar>of_int k - 100 * to_double (sum_list vals / real (length lg))\<bar> \<le> 1 / 2 \<and>
               (\<bar>of_int k - 100 * to_double (sum_list vals / real (length lg))\<bar> = 1 / 2 \<longrightarrow> even k) \<and>
               avg = to_double (of_int k / 100)) \<and>
            (if 2 \<le> length lg
             then \<exists>k::int.
                    \<bar>of_int k - 100 * to_double (sqrt
                        (sum_list (map (\<lambda>x. (x - sum_list vals / real (length lg))\<^sup>2) vals)
                           / real (length lg - 1)))\<bar> \<le> 1 / 2 \<and>
                    (\<bar>of_int k - 100 * to_double (sqrt
                        (sum_list (map (\<lambda>x. (x - sum_list vals / real (length lg))\<^sup>2) vals)
                           / real (length lg - 1)))\<bar> = 1 / 2 \<longrightarrow> even k) \<and>
                    sd = to_double (of_int k / 100)
             else sd = 0)"
    if k: "sensor \<in> fst ` set SENSOR_CONFIG" for sensor
  proof -
    let ?vals = "map (\<lambda>entry. the (map_of entry sensor)) lg"
    let ?m = "to_double (sum_list ?vals / real (length lg))"
    let ?s = "to_double (sqrt (sum_list (map (\<lambda>x. (x - sum_list ?vals / real (length lg))\<^sup>2) ?vals)
                             / real (length lg - 1)))"
    let ?avg = "to_double (round_py ?m 2)"
    let ?sd = "if 2 \<le> length lg then to_double (round_py ?s 2) else 0"
    have "\<forall>entry \<in> set lg. sensor \<in> fst ` set entry"
    proof
      fix entry
      assume "entry \<in> set lg"
      with hb k obtain v where "map_of entry sensor = Some v" by blast
      then show "sensor \<in> fst ` set entry" by (metis map_of_eq_None_iff option.distinct(1))
    qed
    then have a: "list_all2 (\<lambda>entry v. map_of entry sensor = Some v) lg ?vals"
      by (rule values_list_all2)
    have "map_of ?st sensor = Some (summary_of_f64 ?vals)"
      using k by (rule map_of_summary[where f = "\<lambda>s. summary_of_f64 (map (\<lambda>entry. the (map_of entry s)) lg)"])
    then have b: "map_of ?st sensor = Some [(''avg'', ?avg), (''std_dev'', ?sd)]"
      by (simp add: summary_of_f64_def)
    have c: "\<exists>k::int. \<bar>of_int k - 100 * ?m\<bar> \<le> 1 / 2 \<and>
               (\<bar>of_int k - 100 * ?m\<bar> = 1 / 2 \<longrightarrow> even k) \<and>
               ?avg = to_double (of_int k / 100)"
      by (rule round_py_2_nearest)
    have d: "if 2 \<le> length lg
        then \<exists>k::int. \<bar>of_int k - 100 * ?s\<bar> \<le> 1 / 2 \<and>
                    (\<bar>of_int k - 100 * ?s\<bar> = 1 / 2 \<longrightarrow> even k) \<and>
                    ?sd = to_double (of_int k / 100)
        else ?sd = 0"
    proof (cases "2 \<le> length lg")
      case True
      then show ?thesis using round_py_2_nearest[of ?s] by (simp only: if_True)
    next
      case False
      then show ?thesis by (simp only: if_False)
    qed
    show ?thesis
      by (rule exI[of _ ?vals], rule exI[of _ ?avg], rule exI[of _ ?sd], intro conjI)
        (rule a b c d)+
  qed
  show ?thesis by (rule exI[of _ ?st], intro conjI ballI) (rule v per, assumption?)+
qed

lemma round_half_even_of_int: "round_half_even (of_int i) = i"
  by (simp add: round_half_even_def)

lemma round_half_even_unique:
  assumes "\<bar>of_int k - y\<bar> \<le> 1 / 2" "\<bar>of_int k - y\<bar> = 1 / 2 \<longrightarrow> even k"
  shows "k = round_half_even y"
proof -
  let ?r = "round_half_even y"
  note r = round_half_even_error[of y]
  have "\<bar>of_int k - of_int ?r\<bar> \<le> (1::real)" using assms(1) r by linarith
  then have "\<bar>k - ?r\<bar> \<le> 1" by (metis of_int_diff of_int_abs of_int_le_iff of_int_1)
  then consider "k = ?r" | "k = ?r + 1" | "k = ?r - 1" by linarith
  then show ?thesis
  proof cases
    case 1
    then show ?thesis .
  next
    case 2
    then have "of_int k = of_int ?r + (1::real)" by simp
    with assms(1) r have "\<bar>of_int k - y\<bar> = 1 / 2" "\<bar>of_int ?r - y\<bar> = 1 / 2" by linarith+
    with assms(2) r have "even k" "even ?r" by simp_all
    with 2 show ?thesis by simp
  next
    case 3
    then have "of_int k = of_int ?r - (1::real)" by simp
    with assms(1) r have "\<bar>of_int k - y\<bar> = 1 / 2" "\<bar>of_int ?r - y\<bar> = 1 / 2" by linarith+
    with assms(2) r have "even k" "even ?r" by simp_all
    with 3 show ?thesis by simp
  qed
qed

lemma to_double_between:
  assumes e: "- 1022 \<le> e" and i: "2 ^ 52 \<le> i" and j: "j < 2 ^ 53"
    and lo: "of_int i * 2 powi (e - 52) \<le> x" and hi: "x \<le> of_int j * 2 powi (e - 52)"
  shows "of_int i * 2 powi (e - 52) \<le> to_double x \<and> to_double x \<le> of_int j * 2 powi (e - 52)"
proof -
  let ?u = "(2::real) powi (e - 52)"
  have u: "0 < ?u" by simp
  have p: "(2::real) powi e = 2 ^ 52 * ?u"
  proof -
    have "e = 52 + (e - 52)" by simp
    then have "(2::real) powi e = 2 powi (52 + (e - 52))" by (rule arg_cong)
    also have "\<dots> = 2 powi 52 * 2 powi (e - 52)" by (rule power_int_add) simp
    finally show ?thesis by simp
  qed
  have q: "(2::real) powi (e + 1) = 2 ^ 53 * ?u"
  proof -
    have "e + 1 = 53 + (e - 52)" by simp
    then have "(2::real) powi (e + 1) = 2 powi (53 + (e - 52))" by (rule arg_cong)
    also have "\<dots> = 2 powi 53 * 2 powi (e - 52)" by (rule power_int_add) simp
    finally show ?thesis by simp
  qed
  have "(2::real) ^ 52 \<le> of_int i" using i by (metis of_int_le_iff of_int_numeral of_int_power)
  then have "2 ^ 52 * ?u \<le> of_int i * ?u" using u by (simp add: mult_right_mono)
  with lo have x1: "2 powi e \<le> x" unfolding p by linarith
  have "of_int j < (2::real) ^ 53" using j by (metis of_int_less_iff of_int_numeral of_int_power)
  then have "of_int j * ?u < 2 ^ 53 * ?u" using u by (simp add: mult_strict_right_mono)
  with hi have x2: "x < 2 powi (e + 1)" unfolding q by linarith
  have x0: "0 < x" using x1 by (rule less_le_trans[rotated]) simp
  then have ax: "\<bar>x\<bar> = x" by simp
  have td: "to_double x = of_int (round_half_even (x / ?u)) * ?u"
    using x1 x2 e by (intro to_double_eval) (simp_all only: ax)
  have "of_int i \<le> x / ?u" "x / ?u \<le> of_int j"
    using lo hi u by (simp_all add: pos_le_divide_eq pos_divide_le_eq)
  then have "i \<le> round_half_even (x / ?u) \<and> round_half_even (x / ?u) \<le> j"
    by (rule round_half_even_bounds)
  then have "(of_int i :: real) \<le> of_int (round_half_even (x / ?u))"
    "(of_int (round_half_even (x / ?u)) :: real) \<le> of_int j" by simp_all
  then have "of_int i * ?u \<le> of_int (round_half_even (x / ?u)) * ?u"
    "of_int (round_half_even (x / ?u)) * ?u \<le> of_int j * ?u"
    using u by (simp_all add: mult_right_mono)
  then show ?thesis unfolding td by simp
qed

lemma bounded_logI:
  fixes lg :: "reading list"
  assumes "list_all (\<lambda>entry. list_all (\<lambda>sensor.
             case map_of entry sensor of None \<Rightarrow> False | Some v \<Rightarrow> \<bar>v\<bar> \<le> 2 ^ 1000)
             (map fst SENSOR_CONFIG)) lg"
  shows "\<forall>entry \<in> set lg. \<forall>sensor \<in> fst ` set SENSOR_CONFIG.
           \<exists>v. map_of entry sensor = Some v \<and> \<bar>v\<bar> \<le> 2 ^ 1000"
proof (intro ballI)
  fix entry sensor
  assume "entry \<in> set lg" "sensor \<in> fst ` set SENSOR_CONFIG"
  with assms have "case map_of entry sensor of None \<Rightarrow> False | Some v \<Rightarrow> \<bar>v\<bar> \<le> 2 ^ 1000"
    by (auto simp: list_all_iff)
  then show "\<exists>v. map_of entry sensor = Some v \<and> \<bar>v\<bar> \<le> 2 ^ 1000"
    by (cases "map_of entry sensor") simp_all
qed

lemma to_double_20: "to_double 20 = 20"
  using to_double_eval[of 4 20] by (simp add: round_half_even_def power_int_minus)

lemma to_double_half: "to_double (1 / 2) = 1 / 2"
  using to_double_eval[of "- 1" "1 / 2"] by (simp add: round_half_even_def power_int_minus)

lemma to_double_115: "to_double 115 = 115"
  using to_double_eval[of 6 115] by (simp add: round_half_even_def power_int_minus)

lemma health_status_f64_single:
  "health_status_f64 [[(''temperature'', 20), (''vibration'', 1 / 2), (''voltage'', 115)]] =
     Inr [(''temperature'', [(''avg'', 20), (''std_dev'', 0)]),
          (''vibration'', [(''avg'', 1 / 2), (''std_dev'', 0)]),
          (''voltage'', [(''avg'', 115), (''std_dev'', 0)])]"
proof -
  let ?L = "[[(''temperature'', 20::real), (''vibration'', 1 / 2), (''voltage'', 115)]]"
  have ne: "?L \<noteq> []" by simp
  have hb: "\<forall>entry \<in> set ?L. \<forall>sensor \<in> fst ` set SENSOR_CONFIG.
               \<exists>v. map_of entry sensor = Some v \<and> \<bar>v\<bar> \<le> 2 ^ 1000"
    by (rule bounded_logI) (simp add: SENSOR_CONFIG_def)
  have r: "round_py 20 2 = 20" "round_py (1 / 2) 2 = 1 / 2" "round_py 115 2 = 115"
    using round_py_int[of 2000] round_py_int[of 50] round_py_int[of 11500] by simp_all
  show ?thesis
    unfolding health_status_f64_value[OF ne hb]
    by (simp add: summary_of_f64_def to_double_20 to_double_half to_double_115 r)
qed

lemma nearest_2_decimals:
  assumes "\<exists>k::int. \<bar>of_int k - 100 * x\<bar> \<le> 1 / 2 \<and> (\<bar>of_int k - 100 * x\<bar> = 1 / 2 \<longrightarrow> even k) \<and>
             r = to_double (of_int k / 100)"
  shows "r = to_double (round_py x 2)"
proof -
  from assms obtain k :: int where k: "\<bar>of_int k - 100 * x\<bar> \<le> 1 / 2"
    "\<bar>of_int k - 100 * x\<bar> = 1 / 2 \<longrightarrow> even k" "r = to_double (of_int k / 100)"
    by (elim exE conjE)
  from k(1,2) have "k = round_half_even (100 * x)" by (rule round_half_even_unique)
  then show ?thesis by (simp add: k(3) round_py_def mult.commute)
qed

lemma to_double_161_8: "to_double (161 / 8) = 161 / 8"
  using to_double_eval[of 4 "161 / 8"] by (simp add: round_half_even_def power_int_minus)

lemma to_double_1_8: "to_double (1 / 8) = 1 / 8"
  using to_double_eval[of "- 3" "1 / 8"] by (simp add: round_half_even_def power_int_minus)

lemma to_double_2012: "to_double (503 / 25) = 5663276531418399 / 2 ^ 48"
  using to_double_eval[of 4 "503 / 25"] by (simp add: round_half_even_def power_int_minus)

lemma to_double_012: "to_double (3 / 25) = 8646911284551352 / 2 ^ 56"
  using to_double_eval[of "- 4" "3 / 25"] by (simp add: round_half_even_def power_int_minus)

lemma round_py_tie_2012: "round_py (161 / 8) 2 = 503 / 25"
  by (simp add: round_py_def round_half_even_def)

lemma round_py_tie_012: "round_py (1 / 8) 2 = 3 / 25"
  by (simp add: round_py_def round_half_even_def)

lemma to_double_3_8: "to_double (3 / 8) = 3 / 8"
  using to_double_eval[of "- 2" "3 / 8"] by (simp add: round_half_even_def power_int_minus)

lemma to_double_038: "to_double (19 / 50) = 6845471433603154 / 2 ^ 54"
  using to_double_eval[of "- 2" "19 / 50"] by (simp add: round_half_even_def power_int_minus)

lemma round_py_tie_038: "round_py (3 / 8) 2 = 19 / 50"
  by (simp add: round_py_def round_half_even_def)

text \<open>
  Claim C2, amended. In double precision (\<open>health_status_f64\<close>), for a non-empty
  log whose entries all contain the configured sensors, with values of magnitude at most
  \<open>2 ^ 1000\<close>, \<open>health_status\<close> returns a dict that binds each configured sensor to
  \<open>{avg, std_dev}\<close>. \<open>avg\<close> is the mean rounded to 2 decimals in this sense: the mean
  is the double that \<open>statistics.mean\<close> returns, the double nearest to the arithmetic
  mean of the sensor's values across the log; \<open>k / 100\<close> is the number with two decimals
  nearest to that double, the even \<open>k\<close> on a tie; \<open>avg\<close> is the double nearest to
  \<open>k / 100\<close>. \<open>std_dev\<close> is obtained in the same way from the double nearest to the
  sample standard deviation of the values when the log has at least two entries, and is
  \<open>0.0\<close> when it has one. For the log of the single reading
  \<open>{temperature: 20.0, vibration: 0.5, voltage: 115.0}\<close> every \<open>std_dev\<close> is \<open>0.0\<close>.
\<close>

theorem health_status_f64_mean_stdev:
  "(lg \<noteq> [] \<and>
    (\<forall>entry \<in> set lg. \<forall>sensor \<in> fst ` set SENSOR_CONFIG.
       \<exists>v. map_of entry sensor = Some v \<and> \<bar>v\<bar> \<le> 2 ^ 1000) \<longrightarrow>
    (\<exists>status. health_status_f64 lg = Inr status \<and>
       (\<forall>sensor \<in> fst ` set SENSOR_CONFIG.
          \<exists>vals avg sd. list_all2 (\<lambda>entry v. map_of entry sensor = Some v) lg vals \<and>
            map_of status sensor = Some [(''avg'', avg), (''std_dev'', sd)] \<and>
            (\<exists>k::int. \<bar>of_int k - 100 * to_double (sum_list vals / real (length lg))\<bar> \<le> 1 / 2 \<and>
               (\<bar>of_int k - 100 * to_double (sum_list vals / real (length lg))\<bar> = 1 / 2 \<longrightarrow> even k) \<and>
               avg = to_double (of_int k / 100)) \<and>
            (if 2 \<le> length lg
             then \<exists>k::int.
                    \<bar>of_int k - 100 * to_double (sqrt
                        (sum_list (map (\<lambda>x. (x - sum_list vals / real (length lg))\<^sup>2) vals)
                           / real (length lg - 1)))\<bar> \<le> 1 / 2 \<and>
                    (\<bar>of_int k - 100 * to_double (sqrt
                        (sum_list (map (\<lambda>x. (x - sum_list vals / real (length lg))\<^sup>2) vals)
                           / real (length lg - 1)))\<bar> = 1 / 2 \<longrightarrow> even k) \<and>
                    sd = to_double (of_int k / 100)
             else sd = 0)))) \<and>
   health_status_f64 [[(''temperature'', 20), (''vibration'', 1 / 2), (''voltage'', 115)]] =
     Inr [(''temperature'', [(''avg'', 20), (''std_dev'', 0)]),
          (''vibration'', [(''avg'', 1 / 2), (''std_dev'', 0)]),
          (''voltage'', [(''avg'', 115), (''std_dev'', 0)])]"
proof (rule conjI, rule impI)
  assume "lg \<noteq> [] \<and>
    (\<forall>entry \<in> set lg. \<forall>sensor \<in> fst ` set SENSOR_CONFIG.
       \<exists>v. map_of entry sensor = Some v \<and> \<bar>v\<bar> \<le> 2 ^ 1000)"
  then have ne: "lg \<noteq> []"
    and hb: "\<forall>entry \<in> set lg. \<forall>sensor \<in> fst ` set SENSOR_CONFIG.
       \<exists>v. map_of entry sensor = Some v \<and> \<bar>v\<bar> \<le> 2 ^ 1000"
    by (rule conjunct1, rule conjunct2)
  from ne hb show "\<exists>status. health_status_f64 lg = Inr status \<and>
       (\<forall>sensor \<in> fst ` set SENSOR_CONFIG.
          \<exists>vals avg sd. list_all2 (\<lambda>entry v. map_of entry sensor = Some v) lg vals \<and>
            map_of status sensor = Some [(''avg'', avg), (''std_dev'', sd)] \<and>
            (\<exists>k::int. \<bar>of_int k - 100 * to_double (sum_list vals / real (length lg))\<bar> \<le> 1 / 2 \<and>
               (\<bar>of_int k - 100 * to_double (sum_list vals / real (length lg))\<bar> = 1 / 2 \<longrightarrow> even k) \<and>
               avg = to_double (of_int k / 100)) \<and>
            (if 2 \<le> length lg
             then \<exists>k::int.
                    \<bar>of_int k - 100 * to_double (sqrt
                        (sum_list (map (\<lambda>x. (x - sum_list vals / real (length lg))\<^sup>2) vals)
                           / real (length lg - 1)))\<bar> \<le> 1 / 2 \<and>
                    (\<bar>of_int k - 100 * to_double (sqrt
                        (sum_list (map (\<lambda>x. (x - sum_list vals / real (length lg))\<^sup>2) vals)
                           / real (length lg - 1)))\<bar> = 1 / 2 \<longrightarrow> even k) \<and>
                    sd = to_double (of_int k / 100)
             else sd = 0))"
    by (rule health_status_f64_general)
next
  show "health_status_f64 [[(''temperature'', 20), (''vibration'', 1 / 2), (''voltage'', 115)]] =
     Inr [(''temperature'', [(''avg'', 20), (''std_dev'', 0)]),
          (''vibration'', [(''avg'', 1 / 2), (''std_dev'', 0)]),
          (''voltage'', [(''avg'', 115), (''std_dev'', 0)])]"
    by (rule health_status_f64_single)
qed

text \<open>
  An instance with three readings on which the roundings meet ties. The temperatures
  20.0, 20.125 and 20.25 have the mean 20.125, which rounds down to the even 20.12, and
  the standard deviation 0.125, which rounds down to 0.12; the vibrations 0.25, 0.375
  and 0.5 have the mean 0.375, which rounds up to the even 0.38. The summary holds the
  doubles nearest to these decimals.
\<close>

theorem health_status_f64_mean_stdev_witness:
  "[[(''temperature'', 20::real), (''vibration'', 1 / 4), (''voltage'', 110)],
    [(''temperature'', 161 / 8), (''vibration'', 3 / 8), (''voltage'', 115)],
    [(''temperature'', 81 / 4), (''vibration'', 1 / 2), (''voltage'', 120)]] \<noteq> [] \<and>
   list_all (\<lambda>entry. list_all (\<lambda>sensor.
       case map_of entry sensor of None \<Rightarrow> False | Some v \<Rightarrow> \<bar>v\<bar> \<le> 2 ^ 1000)
       (map fst SENSOR_CONFIG))
     [[(''temperature'', 20::real), (''vibration'', 1 / 4), (''voltage'', 110)],
      [(''temperature'', 161 / 8), (''vibration'', 3 / 8), (''voltage'', 115)],
      [(''temperature'', 81 / 4), (''vibration'', 1 / 2), (''voltage'', 120)]] \<and>
   (\<exists>status.
      health_status_f64 [[(''temperature'', 20), (''vibration'', 1 / 4), (''voltage'', 110)],
                         [(''temperature'', 161 / 8), (''vibration'', 3 / 8), (''voltage'', 115)],
                         [(''temperature'', 81 / 4), (''vibration'', 1 / 2), (''voltage'', 120)]]
        = Inr status \<and>
      map_of status ''temperature'' =
        Some [(''avg'', 5663276531418399 / 2 ^ 48), (''std_dev'', 8646911284551352 / 2 ^ 56)] \<and>
      map_of status ''vibration'' =
        Some [(''avg'', 6845471433603154 / 2 ^ 54), (''std_dev'', 8646911284551352 / 2 ^ 56)])"
proof -
  let ?L = "[[(''temperature'', 20::real), (''vibration'', 1 / 4), (''voltage'', 110)],
             [(''temperature'', 161 / 8), (''vibration'', 3 / 8), (''voltage'', 115)],
             [(''temperature'', 81 / 4), (''vibration'', 1 / 2), (''voltage'', 120)]]"
  have h1: "?L \<noteq> []" by simp
  have h3: "list_all (\<lambda>entry. list_all (\<lambda>sensor.
       case map_of entry sensor of None \<Rightarrow> False | Some v \<Rightarrow> \<bar>v\<bar> \<le> 2 ^ 1000)
       (map fst SENSOR_CONFIG)) ?L"
    by (simp add: SENSOR_CONFIG_def)
  have h2: "\<forall>entry \<in> set ?L. \<forall>sensor \<in> fst ` set SENSOR_CONFIG.
       \<exists>v. map_of entry sensor = Some v \<and> \<bar>v\<bar> \<le> 2 ^ 1000"
    using h3 by (rule bounded_logI)
  have l: "2 \<le> length ?L" by simp
  note g = health_status_f64_mean_stdev[of ?L, THEN conjunct1, THEN mp, OF conjI[OF h1 h2]]
  from g obtain status where ab: "health_status_f64 ?L = Inr status \<and>
       (\<forall>sensor \<in> fst ` set SENSOR_CONFIG.
          \<exists>vals avg sd. list_all2 (\<lambda>entry v. map_of entry sensor = Some v) ?L vals \<and>
            map_of status sensor = Some [(''avg'', avg), (''std_dev'', sd)] \<and>
            (\<exists>k::int. \<bar>of_int k - 100 * to_double (sum_list vals / real (length ?L))\<bar> \<le> 1 / 2 \<and>
               (\<bar>of_int k - 100 * to_double (sum_list vals / real (length ?L))\<bar> = 1 / 2 \<longrightarrow> even k) \<and>
               avg = to_double (of_int k / 100)) \<and>
            (if 2 \<le> length ?L
             then \<exists>k::int.
                    \<bar>of_int k - 100 * to_double (sqrt
                        (sum_list (map (\<lambda>x. (x - sum_list vals / real (length ?L))\<^sup>2) vals)
                           / real (length ?L - 1)))\<bar> \<le> 1 / 2 \<and>
                    (\<bar>of_int k - 100 * to_double (sqrt
                        (sum_list (map (\<lambda>x. (x - sum_list vals / real (length ?L))\<^sup>2) vals)
                           / real (length ?L - 1)))\<bar> = 1 / 2 \<longrightarrow> even k) \<and>
                    sd = to_double (of_int k / 100)
             else sd = 0))" ..
  note a = ab[THEN conjunct1]
  note b = ab[THEN conjunct2]
  have k: "''temperature'' \<in> fst ` set SENSOR_CONFIG" by (simp add: SENSOR_CONFIG_def)
  from b[rule_format, OF k] obtain vals avg sd where
    vd: "list_all2 (\<lambda>entry v. map_of entry ''temperature'' = Some v) ?L vals \<and>
    map_of status ''temperature'' = Some [(''avg'', avg), (''std_dev'', sd)] \<and>
    (\<exists>k::int. \<bar>of_int k - 100 * to_double (sum_list vals / real (length ?L))\<bar> \<le> 1 / 2 \<and>
               (\<bar>of_int k - 100 * to_double (sum_list vals / real (length ?L))\<bar> = 1 / 2 \<longrightarrow> even k) \<and>
               avg = to_double (of_int k / 100)) \<and>
    (if 2 \<le> length ?L
             then \<exists>k::int.
                    \<bar>of_int k - 100 * to_double (sqrt
                        (sum_list (map (\<lambda>x. (x - sum_list vals / real (length ?L))\<^sup>2) vals)
                           / real (length ?L - 1)))\<bar> \<le> 1 / 2 \<and>
                    (\<bar>of_int k - 100 * to_double (sqrt
                        (sum_list (map (\<lambda>x. (x - sum_list vals / real (length ?L))\<^sup>2) vals)
                           / real (length ?L - 1)))\<bar> = 1 / 2 \<longrightarrow> even k) \<and>
                    sd = to_double (of_int k / 100)
             else sd = 0)"
    by (elim exE)
  note v = vd[THEN conjunct1]
  note m = vd[THEN conjunct2, THEN conjunct1]
  note c = vd[THEN conjunct2, THEN conjunct2, THEN conjunct1]
  note d = vd[THEN conjunct2, THEN conjunct2, THEN conjunct2]
  from v have vals: "vals = [20, 161 / 8, 81 / 4]" by (auto simp: list_all2_Cons1)
  have mean: "sum_list vals / real (length ?L) = 161 / 8" by (simp add: vals)
  have var: "sum_list (map (\<lambda>x. (x - sum_list vals / real (length ?L))\<^sup>2) vals)
               / real (length ?L - 1) = 1 / 64"
    unfolding mean by (simp add: vals power2_eq_square)
  have sq: "sqrt (1 / 64) = 1 / 8" by (rule real_sqrt_unique) (simp_all add: power2_eq_square)
  from c have "avg = to_double (round_py (to_double (sum_list vals / real (length ?L))) 2)"
    by (rule nearest_2_decimals)
  then have avg: "avg = 5663276531418399 / 2 ^ 48"
    by (simp only: mean to_double_161_8 round_py_tie_2012 to_double_2012)
  from d l have "\<exists>k::int.
                    \<bar>of_int k - 100 * to_double (sqrt
                        (sum_list (map (\<lambda>x. (x - sum_list vals / real (length ?L))\<^sup>2) vals)
                           / real (length ?L - 1)))\<bar> \<le> 1 / 2 \<and>
                    (\<bar>of_int k - 100 * to_double (sqrt
                        (sum_list (map (\<lambda>x. (x - sum_list vals / real (length ?L))\<^sup>2) vals)
                           / real (length ?L - 1)))\<bar> = 1 / 2 \<longrightarrow> even k) \<and>
                    sd = to_double (of_int k / 100)"
    by (simp only: if_True)
  then have "sd = to_double (round_py (to_double (sqrt
                        (sum_list (map (\<lambda>x. (x - sum_list vals / real (length ?L))\<^sup>2) vals)
                           / real (length ?L - 1)))) 2)"
    by (rule nearest_2_decimals)
  then have sd: "sd = 8646911284551352 / 2 ^ 56"
    by (simp only: var sq to_double_1_8 round_py_tie_012 to_double_012)
  have k2: "''vibration'' \<in> fst ` set SENSOR_CONFIG" by (simp add: SENSOR_CONFIG_def)
  from b[rule_format, OF k2] obtain vals2 avg2 sd2 where
    vd2: "list_all2 (\<lambda>entry v. map_of entry ''vibration'' = Some v) ?L vals2 \<and>
    map_of status ''vibration'' = Some [(''avg'', avg2), (''std_dev'', sd2)] \<and>
    (\<exists>k::int. \<bar>of_int k - 100 * to_double (sum_list vals2 / real (length ?L))\<bar> \<le> 1 / 2 \<and>
               (\<bar>of_int k - 100 * to_double (sum_list vals2 / real (length ?L))\<bar> = 1 / 2 \<longrightarrow> even k) \<and>
               avg2 = to_double (of_int k / 100)) \<and>
    (if 2 \<le> length ?L
             then \<exists>k::int.
                    \<bar>of_int k - 100 * to_double (sqrt
                        (sum_list (map (\<lambda>x. (x - sum_list vals2 / real (length ?L))\<^sup>2) vals2)
                           / real (length ?L - 1)))\<bar> \<le> 1 / 2 \<and>
                    (\<bar>of_int k - 100 * to_double (sqrt
                        (sum_list (map (\<lambda>x. (x - sum_list vals2 / real (length ?L))\<^sup>2) vals2)
                           / real (length ?L - 1)))\<bar> = 1 / 2 \<longrightarrow> even k) \<and>
                    sd2 = to_double (of_int k / 100)
             else sd2 = 0)"
    by (elim exE)
  note v2 = vd2[THEN conjunct1]
  note m2 = vd2[THEN conjunct2, THEN conjunct1]
  note c2 = vd2[THEN conjunct2, THEN conjunct2, THEN conjunct1]
  note d2 = vd2[THEN conjunct2, THEN conjunct2, THEN conjunct2]
  from v2 have vals2: "vals2 = [1 / 4, 3 / 8, 1 / 2]" by (auto simp: list_all2_Cons1)
  have mean2: "sum_list vals2 / real (length ?L) = 3 / 8" by (simp add: vals2)
  have var2: "sum_list (map (\<lambda>x. (x - sum_list vals2 / real (length ?L))\<^sup>2) vals2)
               / real (length ?L - 1) = 1 / 64"
    unfolding mean2 by (simp add: vals2 power2_eq_square)
  from c2 have "avg2 = to_double (round_py (to_double (sum_list vals2 / real (length ?L))) 2)"
    by (rule nearest_2_decimals)
  then have avg2: "avg2 = 6845471433603154 / 2 ^ 54"
    by (simp only: mean2 to_double_3_8 round_py_tie_038 to_double_038)
  from d2 l have "\<exists>k::int.
                    \<bar>of_int k - 100 * to_double (sqrt
                        (sum_list (map (\<lambda>x. (x - sum_list vals2 / real (length ?L))\<^sup>2) vals2)
                           / real (length ?L - 1)))\<bar> \<le> 1 / 2 \<and>
                    (\<bar>of_int k - 100 * to_double (sqrt
                        (sum_list (map (\<lambda>x. (x - sum_list vals2 / real (length ?L))\<^sup>2) vals2)
                           / real (length ?L - 1)))\<bar> = 1 / 2 \<longrightarrow> even k) \<and>
                    sd2 = to_double (of_int k / 100)"
    by (simp only: if_True)
  then have "sd2 = to_double (round_py (to_double (sqrt
                        (sum_list (map (\<lambda>x. (x - sum_list vals2 / real (length ?L))\<^sup>2) vals2)
                           / real (length ?L - 1)))) 2)"
    by (rule nearest_2_decimals)
  then have sd2: "sd2 = 8646911284551352 / 2 ^ 56"
    by (simp only: var2 sq to_double_1_8 round_py_tie_012 to_double_012)
  have t: "map_of status ''temperature'' =
        Some [(''avg'', 5663276531418399 / 2 ^ 48), (''std_dev'', 8646911284551352 / 2 ^ 56)]"
    unfolding m avg sd ..
  have u: "map_of status ''vibration'' =
        Some [(''avg'', 6845471433603154 / 2 ^ 54), (''std_dev'', 8646911284551352 / 2 ^ 56)]"
    unfolding m2 avg2 sd2 ..
  from h1 h3 a t u show ?thesis by (intro conjI exI[of _ status])
qed

lemma to_double_0: "to_double 0 = 0"
  by (simp add: to_double_def)

lemma round_py_0: "round_py 0 2 = 0"
  by (simp add: round_py_def round_half_even_def)

lemma to_double_mean_1859: "to_double (10468054383869297 / 2 ^ 49) = 5234027191934648 / 2 ^ 48"
  using to_double_eval[of 4 "10468054383869297 / 2 ^ 49"]
  by (simp add: round_half_even_def power_int_minus)

lemma round_py_1859: "round_py (5234027191934648 / 2 ^ 48) 2 = 1859 / 100"
  by (simp add: round_py_def round_half_even_def)

lemma to_double_1859: "to_double (1859 / 100) = 5232619817051095 / 2 ^ 48"
  using to_double_eval[of 4 "1859 / 100"] by (simp add: round_half_even_def power_int_minus)

lemma to_double_1860: "to_double (93 / 5) = 2617717283409101 / 2 ^ 47"
  using to_double_eval[of 4 "93 / 5"] by (simp add: round_half_even_def power_int_minus)

lemma to_double_013: "to_double (13 / 100) = 1170935903116329 / 2 ^ 53"
  using to_double_eval[of "- 3" "13 / 100"] by (simp add: round_half_even_def power_int_minus)

lemma round_py_013:
  assumes "17 / 128 \<le> x" "x \<le> 69 / 512"
  shows "round_py x 2 = 13 / 100"
proof -
  have "\<bar>of_int 13 - x * 100\<bar> \<le> 1 / 2" using assms by (simp add: abs_le_iff)
  moreover have "\<bar>of_int 13 - x * 100\<bar> = 1 / 2 \<longrightarrow> even (13::int)" using assms by (simp add: abs_if)
  ultimately have "13 = round_half_even (x * 100)" by (rule round_half_even_unique)
  then show ?thesis by (simp add: round_py_def)
qed

lemma sqrt_variance_bounds:
  "17 / 128 \<le> sqrt (2860136666764981092903750625 / 2 ^ 97) \<and>
   sqrt (2860136666764981092903750625 / 2 ^ 97) \<le> 69 / 512"
proof
  show "17 / 128 \<le> sqrt (2860136666764981092903750625 / 2 ^ 97)"
    by (rule real_le_rsqrt) (simp add: power2_eq_square)
  show "sqrt (2860136666764981092903750625 / 2 ^ 97) \<le> 69 / 512"
    by (rule real_le_lsqrt) (simp_all add: power2_eq_square)
qed

lemma to_double_sqrt_variance:
  "17 / 128 \<le> to_double (sqrt (2860136666764981092903750625 / 2 ^ 97)) \<and>
   to_double (sqrt (2860136666764981092903750625 / 2 ^ 97)) \<le> 69 / 512"
  using to_double_between[of "- 3" "17 * 2 ^ 48" "69 * 2 ^ 46"
      "sqrt (2860136666764981092903750625 / 2 ^ 97)"] sqrt_variance_bounds
  by (simp add: power_int_minus)

lemma summary_of_f64_temperature:
  "summary_of_f64 [37 / 2, 5260767314722161 / 2 ^ 48] =
     [(''avg'', 5232619817051095 / 2 ^ 48), (''std_dev'', 1170935903116329 / 2 ^ 53)]"
proof -
  let ?vals = "[37 / 2, 5260767314722161 / 2 ^ 48] :: real list"
  have l: "2 \<le> length ?vals" by simp
  have mean: "sum_list ?vals / real (length ?vals) = 10468054383869297 / 2 ^ 49" by simp
  have var: "sum_list (map (\<lambda>x. (x - 10468054383869297 / 2 ^ 49)\<^sup>2) ?vals) / real (length ?vals - 1)
               = 2860136666764981092903750625 / 2 ^ 97"
    by (simp add: power2_eq_square)
  have r: "round_py (to_double (sqrt (2860136666764981092903750625 / 2 ^ 97))) 2 = 13 / 100"
    using to_double_sqrt_variance by (intro round_py_013) simp_all
  show ?thesis
    unfolding summary_of_f64_def
    by (simp only: l if_True mean var r to_double_mean_1859 round_py_1859 to_double_1859 to_double_013)
qed

lemma summary_of_f64_constant:
  "summary_of_f64 [1 / 2, 1 / 2] = [(''avg'', 1 / 2), (''std_dev'', 0)]"
  "summary_of_f64 [115, 115] = [(''avg'', 115), (''std_dev'', 0)]"
proof -
  have r: "round_py (1 / 2) 2 = 1 / 2" "round_py 115 2 = 115"
    using round_py_int[of 50] round_py_int[of 11500] by simp_all
  show "summary_of_f64 [1 / 2, 1 / 2] = [(''avg'', 1 / 2), (''std_dev'', 0)]"
    by (simp add: summary_of_f64_def to_double_half to_double_0 round_py_0 r)
  show "summary_of_f64 [115, 115] = [(''avg'', 115), (''std_dev'', 0)]"
    by (simp add: summary_of_f64_def to_double_115 to_double_0 round_py_0 r)
qed

text \<open>
  The claim as stated, \<open>avg\<close> being the arithmetic mean rounded to 2 decimals, fails on
  the log of two readings with the temperatures 18.5 and 18.69, the doubles \<open>37 / 2\<close> and
  \<open>5260767314722161 / 2 ^ 48\<close>. Their arithmetic mean is less than \<open>1 / 200\<close> away from
  18.60 and rounds to it; \<open>statistics.mean\<close> returns the double next below 18.595, and
  \<open>health_status\<close> returns the double 18.59 as \<open>avg\<close>, not the double 18.6.
\<close>

theorem health_status_f64_double_rounding:
  "health_status_f64
     [[(''temperature'', 37 / 2), (''vibration'', 1 / 2), (''voltage'', 115)],
      [(''temperature'', 5260767314722161 / 2 ^ 48), (''vibration'', 1 / 2), (''voltage'', 115)]] =
     Inr [(''temperature'', [(''avg'', 5232619817051095 / 2 ^ 48),
                             (''std_dev'', 1170935903116329 / 2 ^ 53)]),
          (''vibration'', [(''avg'', 1 / 2), (''std_dev'', 0)]),
          (''voltage'', [(''avg'', 115), (''std_dev'', 0)])] \<and>
   to_double (1859 / 100) = 5232619817051095 / 2 ^ 48 \<and>
   \<bar>1860 / 100 - sum_list [37 / 2, 5260767314722161 / 2 ^ 48 :: real] / 2\<bar> < 1 / 200 \<and>
   round_py (sum_list [37 / 2, 5260767314722161 / 2 ^ 48] / 2) 2 = 1860 / 100 \<and>
   to_double (1860 / 100) = 2617717283409101 / 2 ^ 47"
proof (intro conjI)
  let ?L = "[[(''temperature'', 37 / 2 :: real), (''vibration'', 1 / 2), (''voltage'', 115)],
      [(''temperature'', 5260767314722161 / 2 ^ 48), (''vibration'', 1 / 2), (''voltage'', 115)]]"
  have ne: "?L \<noteq> []" by simp
  have hb: "\<forall>entry \<in> set ?L. \<forall>sensor \<in> fst ` set SENSOR_CONFIG.
               \<exists>v. map_of entry sensor = Some v \<and> \<bar>v\<bar> \<le> 2 ^ 1000"
    by (rule bounded_logI) (simp add: SENSOR_CONFIG_def)
  have m: "map (\<lambda>entry. the (map_of entry ''temperature'')) ?L = [37 / 2, 5260767314722161 / 2 ^ 48]"
    "map (\<lambda>entry. the (map_of entry ''vibration'')) ?L = [1 / 2, 1 / 2]"
    "map (\<lambda>entry. the (map_of entry ''voltage'')) ?L = [115, 115]"
    by simp_all
  show "health_status_f64 ?L =
     Inr [(''temperature'', [(''avg'', 5232619817051095 / 2 ^ 48),
                             (''std_dev'', 1170935903116329 / 2 ^ 53)]),
          (''vibration'', [(''avg'', 1 / 2), (''std_dev'', 0)]),
          (''voltage'', [(''avg'', 115), (''std_dev'', 0)])]"
    unfolding health_status_f64_value[OF ne hb]
    by (simp only: m summary_of_f64_temperature summary_of_f64_constant)
  show "to_double (1859 / 100) = 5232619817051095 / 2 ^ 48" by (rule to_double_1859)
  show "\<bar>1860 / 100 - sum_list [37 / 2, 5260767314722161 / 2 ^ 48 :: real] / 2\<bar> < 1 / 200"
    by simp
  show "round_py (sum_list [37 / 2, 5260767314722161 / 2 ^ 48] / 2) 2 = 1860 / 100"
    by (simp add: round_py_def round_half_even_def)
  show "to_double (1860 / 100) = 2617717283409101 / 2 ^ 47"
    using to_double_1860 by simp
qed

lemma as_double_not_StatisticsError: "as_double x \<noteq> Inl StatisticsError"
  by (simp add: as_double_def)

lemma health_status_f64_empty: "health_status_f64 [] = Inl StatisticsError"
  by (simp add: health_status_f64_def config_keys mean_f64_def)

lemma present_of_bounded:
  fixes lg :: "reading list"
  assumes "\<forall>entry \<in> set lg. \<forall>sensor \<in> fst ` set SENSOR_CONFIG.
             \<exists>v. map_of entry sensor = Some v \<and> \<bar>v\<bar> \<le> 2 ^ 1000"
  shows "\<forall>entry \<in> set lg. \<forall>sensor \<in> fst ` set SENSOR_CONFIG. sensor \<in> fst ` set entry"
proof (intro ballI)
  fix entry sensor
  assume "entry \<in> set lg" "sensor \<in> fst ` set SENSOR_CONFIG"
  with assms obtain v where "map_of entry sensor = Some v" by blast
  then show "sensor \<in> fst ` set entry" by (metis map_of_eq_None_iff option.distinct(1))
qed

lemma values_bounded:
  fixes lg :: "reading list"
  assumes "\<forall>entry \<in> set lg. \<exists>v. map_of entry sensor = Some v \<and> \<bar>v\<bar> \<le> 2 ^ 1000"
  shows "\<forall>v \<in> set (map (\<lambda>entry. the (map_of entry sensor)) lg). \<bar>v\<bar> \<le> 2 ^ 1000"
proof
  fix v
  assume "v \<in> set (map (\<lambda>entry. the (map_of entry sensor)) lg)"
  then obtain entry where en: "entry \<in> set lg" "v = the (map_of entry sensor)" by auto
  with assms obtain v' where "map_of entry sensor = Some v'" "\<bar>v'\<bar> \<le> 2 ^ 1000" by blast
  with en(2) show "\<bar>v\<bar> \<le> 2 ^ 1000" by simp
qed

lemma mean_stdev_f64_bounded:
  assumes ne: "vals \<noteq> []" and b: "\<forall>v \<in> set vals. \<bar>v\<bar> \<le> 2 ^ 1000"
  shows "\<exists>m. mean_f64 vals = Inr m \<and> (1 < length vals \<longrightarrow> (\<exists>s. stdev_f64 vals = Inr s))"
proof -
  let ?c = "sum_list vals / real (length vals)"
  let ?sd = "sqrt (sum_list (map (\<lambda>x. (x - ?c)\<^sup>2) vals) / real (length vals - 1))"
  have l: "\<not> length vals < 1" using ne by (cases vals) simp_all
  have c: "\<bar>?c\<bar> \<le> 2 ^ 1000" using ne b by (rule mean_bound)
  then have c3: "\<bar>?c\<bar> \<le> 3 * 2 ^ 1000" by simp
  have m: "mean_f64 vals = Inr (to_double ?c)"
    using l to_double_bounded(1)[OF c3] by (simp add: mean_f64_def)
  have s: "\<exists>s. stdev_f64 vals = Inr s" if g: "1 < length vals"
  proof -
    from g have g2: "2 \<le> length vals" "\<not> length vals < 2" by simp_all
    have sb: "\<bar>?sd\<bar> \<le> 3 * 2 ^ 1000" using g2(1) b c by (rule stdev_bound)
    have "stdev_f64 vals = Inr (to_double ?sd)"
      using g2(2) to_double_bounded(1)[OF sb] by (simp add: stdev_f64_def Let_def)
    then show ?thesis ..
  qed
  from m s show ?thesis by blast
qed

text \<open>
  Claim C8, amended. In double precision (\<open>health_status_f64\<close>), on a non-empty log
  whose entries all contain the configured sensors, the failure branch of \<open>mean\<close> and \<open>stdev\<close>, \<open>StatisticsError\<close>, is
  unreachable, and no lookup fails: for every configured sensor the values are collected,
  and neither \<open>mean\<close> nor \<open>stdev\<close>, called on more than one value, raises
  \<open>StatisticsError\<close>; the only exception \<open>health_status\<close> can raise is
  \<open>OverflowError\<close>. When moreover all values have magnitude at most \<open>2 ^ 1000\<close>,
  \<open>health_status\<close> never raises: \<open>mean\<close> succeeds and \<open>stdev\<close> succeeds wherever it is
  called. Conversely, on the empty log the values of every configured sensor are the
  empty list, on which \<open>mean\<close> raises \<open>StatisticsError\<close>, and so does \<open>health_status\<close>.
\<close>

theorem health_status_f64_exceptions:
  "(lg \<noteq> [] \<and>
    (\<forall>entry \<in> set lg. \<forall>sensor \<in> fst ` set SENSOR_CONFIG. sensor \<in> fst ` set entry) \<longrightarrow>
    (\<forall>e. health_status_f64 lg = Inl e \<longrightarrow> e = OverflowError) \<and>
    (\<forall>sensor \<in> fst ` set SENSOR_CONFIG.
       \<exists>vals. collect_values sensor lg = Inr vals \<and> mean_f64 vals \<noteq> Inl StatisticsError \<and>
         (1 < length vals \<longrightarrow> stdev_f64 vals \<noteq> Inl StatisticsError)) \<and>
    ((\<forall>entry \<in> set lg. \<forall>sensor \<in> fst ` set SENSOR_CONFIG.
        \<exists>v. map_of entry sensor = Some v \<and> \<bar>v\<bar> \<le> 2 ^ 1000) \<longrightarrow>
     (\<exists>status. health_status_f64 lg = Inr status) \<and>
     (\<forall>sensor \<in> fst ` set SENSOR_CONFIG.
        \<exists>vals m. collect_values sensor lg = Inr vals \<and> mean_f64 vals = Inr m \<and>
          (1 < length vals \<longrightarrow> (\<exists>s. stdev_f64 vals = Inr s))))) \<and>
   health_status_f64 [] = Inl StatisticsError \<and>
   (\<forall>sensor \<in> fst ` set SENSOR_CONFIG.
      \<exists>vals. collect_values sensor [] = Inr vals \<and> mean_f64 vals = Inl StatisticsError)"
proof (intro conjI impI ballI allI)
  assume a: "lg \<noteq> [] \<and>
    (\<forall>entry \<in> set lg. \<forall>sensor \<in> fst ` set SENSOR_CONFIG. sensor \<in> fst ` set entry)"
  then have ne: "lg \<noteq> []"
    and hs: "\<forall>entry \<in> set lg. \<forall>sensor \<in> fst ` set SENSOR_CONFIG. sensor \<in> fst ` set entry"
    by (rule conjunct1, rule conjunct2)
  {
    fix e
    assume "health_status_f64 lg = Inl e"
    with ne hs show "e = OverflowError" by (rule health_status_f64_error)
  }
  {
    fix sensor
    assume k: "sensor \<in> fst ` set SENSOR_CONFIG"
    let ?vals = "map (\<lambda>entry. the (map_of entry sensor)) lg"
    have c: "collect_values sensor lg = Inr ?vals"
      using hs k by (auto simp: collect_values_cases)
    have l: "\<not> length ?vals < 1" using ne by (cases lg) simp_all
    have m: "mean_f64 ?vals \<noteq> Inl StatisticsError"
      using l by (simp add: mean_f64_def as_double_not_StatisticsError)
    have s: "1 < length ?vals \<longrightarrow> stdev_f64 ?vals \<noteq> Inl StatisticsError"
      by (simp add: stdev_f64_def Let_def as_double_not_StatisticsError)
    from c m s show "\<exists>vals. collect_values sensor lg = Inr vals \<and>
        mean_f64 vals \<noteq> Inl StatisticsError \<and>
        (1 < length vals \<longrightarrow> stdev_f64 vals \<noteq> Inl StatisticsError)"
      by (intro exI[of _ ?vals] conjI)
  }
  assume hb: "\<forall>entry \<in> set lg. \<forall>sensor \<in> fst ` set SENSOR_CONFIG.
        \<exists>v. map_of entry sensor = Some v \<and> \<bar>v\<bar> \<le> 2 ^ 1000"
  from health_status_f64_value[OF ne hb] show "\<exists>status. health_status_f64 lg = Inr status" ..
  fix sensor
  assume k: "sensor \<in> fst ` set SENSOR_CONFIG"
  let ?vals = "map (\<lambda>entry. the (map_of entry sensor)) lg"
  have c: "collect_values sensor lg = Inr ?vals"
    using hs k by (auto simp: collect_values_cases)
  have n: "?vals \<noteq> []" using ne by simp
  have "\<forall>entry \<in> set lg. \<exists>v. map_of entry sensor = Some v \<and> \<bar>v\<bar> \<le> 2 ^ 1000"
    using hb k by blast
  then have b: "\<forall>v \<in> set ?vals. \<bar>v\<bar> \<le> 2 ^ 1000" by (rule values_bounded)
  from mean_stdev_f64_bounded[OF n b] obtain m where
    m: "mean_f64 ?vals = Inr m \<and> (1 < length ?vals \<longrightarrow> (\<exists>s. stdev_f64 ?vals = Inr s))" ..
  show "\<exists>vals m. collect_values sensor lg = Inr vals \<and> mean_f64 vals = Inr m \<and>
          (1 < length vals \<longrightarrow> (\<exists>s. stdev_f64 vals = Inr s))"
    by (rule exI[of _ ?vals], rule exI[of _ m], rule conjI[OF c m])
next
  show "health_status_f64 [] = Inl StatisticsError" by (rule health_status_f64_empty)
next
  fix sensor
  show "\<exists>vals. collect_values sensor [] = Inr vals \<and> mean_f64 vals = Inl StatisticsError"
    by (simp add: mean_f64_def)
qed

theorem health_status_f64_exceptions_witness:
  "[[(''temperature'', 20::real), (''vibration'', 1 / 2), (''voltage'', 115)],
    [(''temperature'', 23), (''vibration'', 3 / 10), (''voltage'', 120)]] \<noteq> [] \<and>
   list_all (\<lambda>entry. fst ` set SENSOR_CONFIG \<subseteq> fst ` set entry)
     [[(''temperature'', 20::real), (''vibration'', 1 / 2), (''voltage'', 115)],
      [(''temperature'', 23), (''vibration'', 3 / 10), (''voltage'', 120)]] \<and>
   list_all (\<lambda>entry. list_all (\<lambda>sensor.
       case map_of entry sensor of None \<Rightarrow> False | Some v \<Rightarrow> \<bar>v\<bar> \<le> 2 ^ 1000)
       (map fst SENSOR_CONFIG))
     [[(''temperature'', 20::real), (''vibration'', 1 / 2), (''voltage'', 115)],
      [(''temperature'', 23), (''vibration'', 3 / 10), (''voltage'', 120)]] \<and>
   (\<exists>status.
      health_status_f64 [[(''temperature'', 20), (''vibration'', 1 / 2), (''voltage'', 115)],
                         [(''temperature'', 23), (''vibration'', 3 / 10), (''voltage'', 120)]]
        = Inr status) \<and>
   (\<exists>m s. mean_f64 [20, 23] = Inr m \<and> stdev_f64 [20, 23] = Inr s) \<and>
   health_status_f64 [] = Inl StatisticsError"
proof -
  let ?L = "[[(''temperature'', 20::real), (''vibration'', 1 / 2), (''voltage'', 115)],
             [(''temperature'', 23), (''vibration'', 3 / 10), (''voltage'', 120)]]"
  have h1: "?L \<noteq> []" by simp
  have h2: "\<forall>entry \<in> set ?L. \<forall>sensor \<in> fst ` set SENSOR_CONFIG. sensor \<in> fst ` set entry"
    by (simp add: SENSOR_CONFIG_def)
  have h3: "list_all (\<lambda>entry. fst ` set SENSOR_CONFIG \<subseteq> fst ` set entry) ?L"
    by (simp add: SENSOR_CONFIG_def)
  have h5: "list_all (\<lambda>entry. list_all (\<lambda>sensor.
       case map_of entry sensor of None \<Rightarrow> False | Some v \<Rightarrow> \<bar>v\<bar> \<le> 2 ^ 1000)
       (map fst SENSOR_CONFIG)) ?L"
    by (simp add: SENSOR_CONFIG_def)
  have h4: "\<forall>entry \<in> set ?L. \<forall>sensor \<in> fst ` set SENSOR_CONFIG.
       \<exists>v. map_of entry sensor = Some v \<and> \<bar>v\<bar> \<le> 2 ^ 1000"
    using h5 by (rule bounded_logI)
  note t = health_status_f64_exceptions[of ?L]
  note g = t[THEN conjunct1, THEN mp, OF conjI[OF h1 h2], THEN conjunct2, THEN conjunct2,
      THEN mp, OF h4]
  note e = t[THEN conjunct2, THEN conjunct1]
  have k: "''temperature'' \<in> fst ` set SENSOR_CONFIG" by (simp add: SENSOR_CONFIG_def)
  from g[THEN conjunct2, rule_format, OF k] obtain vals m where
    vm: "collect_values ''temperature'' ?L = Inr vals \<and> mean_f64 vals = Inr m \<and>
          (1 < length vals \<longrightarrow> (\<exists>s. stdev_f64 vals = Inr s))"
    by (elim exE)
  have "collect_values ''temperature'' ?L = Inr [20, 23]" by (simp add: getitem_def)
  with vm have vals: "vals = [20, 23]" by simp
  have l: "1 < length vals" by (simp add: vals)
  from vm[THEN conjunct2, THEN conjunct2, THEN mp, OF l] obtain s where "stdev_f64 vals = Inr s" ..
  with vm[THEN conjunct2, THEN conjunct1]
  have ms: "\<exists>m s. mean_f64 [20, 23] = Inr m \<and> stdev_f64 [20, 23] = Inr s"
    unfolding vals by (intro exI conjI)
  from h1 h3 h5 g[THEN conjunct1] ms e show ?thesis by (intro conjI)
qed

lemma sqrt_overflow: "2 ^ 1024 \<le> sqrt (18 * 2 ^ 2044)"
  by (rule real_le_rsqrt) simp

text \<open>
  The claim as stated, that \<open>health_status\<close> never raises on such a log, fails for
  large finite values: for the two temperatures \<open>3 * 2 ^ 1022\<close> and \<open>- 3 * 2 ^ 1022\<close> the
  mean is 0.0, but the sample standard deviation, \<open>3 * 2 ^ 1022 * sqrt 2\<close>, is beyond the
  largest double: \<open>stdev\<close> raises \<open>OverflowError\<close>, and so does \<open>health_status\<close>.
\<close>

theorem health_status_f64_overflow:
  "health_status_f64
     [[(''temperature'', 3 * 2 ^ 1022), (''vibration'', 1 / 2), (''voltage'', 115)],
      [(''temperature'', - (3 * 2 ^ 1022)), (''vibration'', 1 / 2), (''voltage'', 115)]] =
     Inl OverflowError \<and>
   mean_f64 [3 * 2 ^ 1022, - (3 * 2 ^ 1022)] = Inr 0 \<and>
   stdev_f64 [3 * 2 ^ 1022, - (3 * 2 ^ 1022)] = Inl OverflowError"
proof -
  let ?L = "[[(''temperature'', 3 * 2 ^ 1022 :: real), (''vibration'', 1 / 2), (''voltage'', 115)],
      [(''temperature'', - (3 * 2 ^ 1022)), (''vibration'', 1 / 2), (''voltage'', 115)]]"
  let ?vals = "[3 * 2 ^ 1022, - (3 * 2 ^ 1022)] :: real list"
  have hs: "\<forall>entry \<in> set ?L. \<forall>sensor \<in> fst ` set SENSOR_CONFIG. sensor \<in> fst ` set entry"
    by (simp add: SENSOR_CONFIG_def)
  have c: "sum_list ?vals / real (length ?vals) = 0" by simp
  have v: "sum_list (map (\<lambda>x. (x - 0)\<^sup>2) ?vals) / real (length ?vals - 1) = 18 * 2 ^ 2044"
    by (simp add: power2_eq_square)
  have l: "\<not> length ?vals < 1" "\<not> length ?vals < 2" "1 < length ?vals" by simp_all
  have z: "as_double 0 = Inr 0" by (simp add: as_double_def to_double_0)
  have m: "mean_f64 ?vals = Inr 0"
    by (simp only: mean_f64_def l if_False c z)
  have r: "round_f64 0 2 = Inr 0" by (simp only: round_f64_def round_py_0 z)
  have s: "stdev_f64 ?vals = Inl OverflowError"
    by (simp only: stdev_f64_def Let_def l if_False c v as_double_overflow[OF sqrt_overflow])
  have su: "summary_f64 ?vals = Inl OverflowError"
    by (simp only: summary_f64_def m r s l if_True sum.case)
  have t: "map (\<lambda>entry. the (map_of entry ''temperature'')) ?L = ?vals" by simp
  have "health_status_f64 ?L = Inl OverflowError"
    unfolding health_status_f64_unfold[OF hs] by (simp only: t su sum.case)
  with m s show ?thesis by (intro conjI)
qed

section \<open>The driver\<close>

lemma detect_anomalies_generated:
  "\<exists>anomalies. detect_anomalies (fst (generate_sensor_data rs)) = Inr anomalies"
proof -
  have "fst ` set (fst (generate_sensor_data rs)) \<subseteq> fst ` set SENSOR_CONFIG"
    by (simp add: generate_sensor_data_eq SENSOR_CONFIG_def)
  from detect_loop_total[OF this, of "[]"] show ?thesis
    unfolding detect_anomalies_def by blast
qed

lemma tick_result:
  "\<exists>w'. tick i (lg, w) = Inr (lg @ [fst (generate_sensor_data (rng w))], w') \<and>
        rng w' = snd (generate_sensor_data (rng w)) \<and>
        edge_health_log w' = edge_health_log w"
proof -
  obtain anomalies where "detect_anomalies (fst (generate_sensor_data (rng w))) = Inr anomalies"
    using detect_anomalies_generated by blast
  then show ?thesis
    by (simp add: tick_def split_def Let_def print_line_def time_sleep_def)
qed

lemma main_loop_append:
  "main_loop (xs @ ys) s = (case main_loop xs s of Inl e \<Rightarrow> Inl e | Inr s' \<Rightarrow> main_loop ys s')"
  by (induction xs arbitrary: s) (simp_all split: sum.splits)

lemma main_loop_invariant:
  "\<exists>w'. main_loop [0..<k] ([], w) =
          Inr (map (\<lambda>i. fst (generate_sensor_data (\<lambda>j. rng w (3 * i + j)))) [0..<k], w') \<and>
        rng w' = (\<lambda>j. rng w (3 * k + j)) \<and>
        edge_health_log w' = edge_health_log w"
proof (induction k)
  case 0
  show ?case by simp
next
  case (Suc k)
  let ?lg = "map (\<lambda>i. fst (generate_sensor_data (\<lambda>j. rng w (3 * i + j)))) [0..<k]"
  from Suc obtain w' where
    l: "main_loop [0..<k] ([], w) = Inr (?lg, w')" and
    r: "rng w' = (\<lambda>j. rng w (3 * k + j))" and
    f: "edge_health_log w' = edge_health_log w"
    by blast
  from tick_result[of k ?lg w'] obtain w'' where
    t: "tick k (?lg, w') = Inr (?lg @ [fst (generate_sensor_data (rng w'))], w'')" and
    r': "rng w'' = snd (generate_sensor_data (rng w'))" and
    f': "edge_health_log w'' = edge_health_log w'"
    by blast
  have "main_loop [0..<Suc k] ([], w) = Inr (?lg @ [fst (generate_sensor_data (rng w'))], w'')"
    by (simp add: main_loop_append l t)
  moreover have "?lg @ [fst (generate_sensor_data (rng w'))] =
      map (\<lambda>i. fst (generate_sensor_data (\<lambda>j. rng w (3 * i + j)))) [0..<Suc k]"
    by (simp add: r)
  moreover have "rng w'' = (\<lambda>j. rng w (3 * Suc k + j))"
    by (simp add: r' r generate_sensor_data_eq ac_simps)
  moreover have "edge_health_log w'' = edge_health_log w" by (simp add: f f')
  ultimately show ?case by simp
qed

text \<open>
  Claim C3. After any number \<open>k\<close> of iterations of the driver loop the log holds
  \<open>k\<close> readings; its \<open>i\<close>-th element is the reading generated on tick \<open>i\<close> (from the
  three outcomes the source yields for that tick); every reading in it has exactly the
  keys temperature, vibration and voltage, the keys of \<open>SENSOR_CONFIG\<close>. The next
  iteration appends one reading and leaves the earlier ones in place, and the loop of
  a longer run passes through this state.
\<close>

theorem main_loop_log_invariant:
  "\<exists>lg w'. main_loop [0..<k] ([], w) = Inr (lg, w') \<and>
     length lg = k \<and>
     (\<forall>i < k. lg ! i = fst (generate_sensor_data (\<lambda>j. rng w (3 * i + j)))) \<and>
     (\<forall>r \<in> set lg. map fst r = [''temperature'', ''vibration'', ''voltage''] \<and>
        map fst r = map fst SENSOR_CONFIG) \<and>
     (\<exists>data w''. tick k (lg, w') = Inr (lg @ [data], w'') \<and>
        main_loop [0..<Suc k] ([], w) = Inr (lg @ [data], w'')) \<and>
     (\<forall>n \<ge> k. main_loop [0..<n] ([], w) = main_loop [k..<n] (lg, w'))"
proof -
  let ?g = "\<lambda>i. fst (generate_sensor_data (\<lambda>j. rng w (3 * i + j)))"
  let ?lg = "map ?g [0..<k]"
  from main_loop_invariant[of k w] obtain w' where
    l: "main_loop [0..<k] ([], w) = Inr (?lg, w')" by blast
  have c1: "length ?lg = k" by simp
  have c2: "\<forall>i < k. ?lg ! i = ?g i" by simp
  have c3: "\<forall>r \<in> set ?lg. map fst r = [''temperature'', ''vibration'', ''voltage''] \<and>
        map fst r = map fst SENSOR_CONFIG"
    by (auto simp: generate_sensor_data_keys config_keys)
  from tick_result[of k ?lg w'] obtain w'' where
    t: "tick k (?lg, w') = Inr (?lg @ [fst (generate_sensor_data (rng w'))], w'')" by blast
  have "main_loop [0..<Suc k] ([], w) = Inr (?lg @ [fst (generate_sensor_data (rng w'))], w'')"
    by (simp add: main_loop_append l t)
  with t have c4: "\<exists>data w''. tick k (?lg, w') = Inr (?lg @ [data], w'') \<and>
        main_loop [0..<Suc k] ([], w) = Inr (?lg @ [data], w'')"
    by blast
  have c5: "\<forall>n \<ge> k. main_loop [0..<n] ([], w) = main_loop [k..<n] (?lg, w')"
  proof (intro allI impI)
    fix n :: nat
    assume "k \<le> n"
    then have "[0..<n] = [0..<k] @ [k..<n]"
      using upt_add_eq_append[of 0 k "n - k"] by simp
    then show "main_loop [0..<n] ([], w) = main_loop [k..<n] (?lg, w')"
      by (simp add: main_loop_append l)
  qed
  from l c1 c2 c3 c4 c5 show ?thesis by (intro exI[of _ ?lg] exI[of _ w'] conjI)
qed

theorem main_loop_log_invariant_witness:
  "\<exists>w'. main_loop [0..<2] ([], init_world (const_source (1 / 4))) =
      Inr ([[(''temperature'', 20), (''vibration'', 31 / 100), (''voltage'', 451 / 4)],
            [(''temperature'', 20), (''vibration'', 31 / 100), (''voltage'', 451 / 4)]], w')"
proof -
  let ?w = "init_world (const_source (1 / 4))"
  from main_loop_log_invariant[of 2 ?w] obtain lg w' where
    l: "main_loop [0..<2] ([], ?w) = Inr (lg, w')" and n: "length lg = 2" and
    e: "\<forall>i < 2. lg ! i = fst (generate_sensor_data (\<lambda>j. rng ?w (3 * i + j)))"
    by blast
  have g: "fst (generate_sensor_data (\<lambda>j. rng ?w (3 * i + j))) =
      [(''temperature'', 20), (''vibration'', 31 / 100), (''voltage'', 451 / 4)]" for i
    by (simp add: generate_sensor_data_eq random_uniform_def random_random_def const_source_def
        init_world_def round_py_def round_half_even_def)
  from e have "lg ! 0 = [(''temperature'', 20), (''vibration'', 31 / 100), (''voltage'', 451 / 4)]"
    "lg ! 1 = [(''temperature'', 20), (''vibration'', 31 / 100), (''voltage'', 451 / 4)]"
    by (simp_all add: g)
  with n have "lg = [[(''temperature'', 20), (''vibration'', 31 / 100), (''voltage'', 451 / 4)],
            [(''temperature'', 20), (''vibration'', 31 / 100), (''voltage'', 451 / 4)]]"
    by (intro nth_equalityI) (auto simp: less_Suc_eq numeral_2_eq_2)
  with l show ?thesis by blast
qed




text \<open>
  Where the precondition is used: with the reading count 0, which \<open>main\<close> never has,
  the loop body would not run, the log would be empty, and \<open>health_status\<close> would raise
  \<open>StatisticsError\<close> before anything is written.
\<close>

lemma main_with_zero_readings:
  "main_with 0 (init_world (const_source (1 / 4))) = Inl StatisticsError"
  by (simp add: main_with_def health_status_def config_keys mean_def)


section \<open>The store: what the functions leave unchanged\<close>

lemma setitem_frame:
  assumes "n \<le> a"
  shows "take n (heap (setitem a k v s)) = take n (heap s)"
    and "length (heap (setitem a k v s)) = length (heap s)"
    and "SENSOR_CONFIG_global (setitem a k v s) = SENSOR_CONFIG_global s"
  using assms by (simp_all add: setitem_def split: pyobj.splits)

lemma alloc_frame:
  "fst (alloc obj s) = length (heap s)"
  "heap (snd (alloc obj s)) = heap s @ [obj]"
  "SENSOR_CONFIG_global (snd (alloc obj s)) = SENSOR_CONFIG_global s"
  by (simp_all add: alloc_def)

lemma detect_loop_st_step:
  "(\<exists>e. detect_loop_st ((sensor, reading) # items) anomalies s = (Inl e, s)) \<or>
   detect_loop_st ((sensor, reading) # items) anomalies s =
     detect_loop_st items anomalies (setitem anomalies sensor reading s) \<or>
   detect_loop_st ((sensor, reading) # items) anomalies s = detect_loop_st items anomalies s"
  by (simp split: sum.splits)

lemma health_loop_st_step:
  "(\<exists>e. health_loop_st (sensor # sensors) entries status s = (Inl e, s)) \<or>
   (\<exists>obj. health_loop_st (sensor # sensors) entries status s =
      health_loop_st sensors entries status
        (setitem status sensor (Ref (length (heap s))) (s\<lparr>heap := heap s @ [obj]\<rparr>)))"
  by (simp add: alloc_def split: sum.splits) blast

lemma detect_loop_st_frame:
  assumes "n \<le> anomalies"
  shows "take n (heap (snd (detect_loop_st items anomalies s))) = take n (heap s) \<and>
         SENSOR_CONFIG_global (snd (detect_loop_st items anomalies s)) = SENSOR_CONFIG_global s"
proof (induction items arbitrary: s)
  case Nil
  show ?case by simp
next
  case (Cons item items)
  obtain sensor reading where i: "item = (sensor, reading)" by (cases item)
  let ?s' = "setitem anomalies sensor reading s"
  have f: "take n (heap ?s') = take n (heap s)" "SENSOR_CONFIG_global ?s' = SENSOR_CONFIG_global s"
    using assms by (rule setitem_frame)+
  from detect_loop_st_step[of sensor reading items anomalies s] show ?case
  proof (elim disjE exE)
    fix e
    assume "detect_loop_st ((sensor, reading) # items) anomalies s = (Inl e, s)"
    then show ?thesis by (simp only: i snd_conv simp_thms)
  next
    assume "detect_loop_st ((sensor, reading) # items) anomalies s =
              detect_loop_st items anomalies ?s'"
    then show ?thesis using Cons.IH[of ?s'] by (simp only: i f)
  next
    assume "detect_loop_st ((sensor, reading) # items) anomalies s =
              detect_loop_st items anomalies s"
    then show ?thesis using Cons.IH[of s] by (simp only: i)
  qed
qed

lemma detect_anomalies_st_frame:
  "take (length (heap s)) (heap (snd (detect_anomalies_st data s))) = heap s \<and>
   SENSOR_CONFIG_global (snd (detect_anomalies_st data s)) = SENSOR_CONFIG_global s"
proof -
  let ?s1 = "s\<lparr>heap := heap s @ [DictObj []]\<rparr>"
  let ?n = "length (heap s)"
  have b: "take ?n (heap ?s1) = heap s" "SENSOR_CONFIG_global ?s1 = SENSOR_CONFIG_global s"
    by simp_all
  show ?thesis
  proof (cases "load_dict ?s1 (Ref data)")
    case (Inl e)
    then have "detect_anomalies_st data s = (Inl e, ?s1)"
      by (simp add: detect_anomalies_st_def alloc_def)
    then show ?thesis by (simp only: snd_conv b simp_thms)
  next
    case (Inr items)
    then have "detect_anomalies_st data s = detect_loop_st items ?n ?s1"
      by (simp add: detect_anomalies_st_def alloc_def)
    then show ?thesis using detect_loop_st_frame[of ?n ?n items ?s1]
      by (simp only: b order_refl simp_thms)
  qed
qed

lemma health_loop_st_frame:
  assumes "n \<le> status"
  shows "n \<le> length (heap s) \<Longrightarrow>
         take n (heap (snd (health_loop_st sensors entries status s))) = take n (heap s) \<and>
         SENSOR_CONFIG_global (snd (health_loop_st sensors entries status s)) = SENSOR_CONFIG_global s"
proof (induction sensors arbitrary: s)
  case Nil
  show ?case by simp
next
  case (Cons sensor sensors)
  from health_loop_st_step[of sensor sensors entries status s] show ?case
  proof (elim disjE exE)
    fix e
    assume "health_loop_st (sensor # sensors) entries status s = (Inl e, s)"
    then show ?thesis by (simp only: snd_conv simp_thms)
  next
    fix obj
    let ?s1 = "s\<lparr>heap := heap s @ [obj]\<rparr>"
    let ?s2 = "setitem status sensor (Ref (length (heap s))) ?s1"
    assume a: "health_loop_st (sensor # sensors) entries status s =
                 health_loop_st sensors entries status ?s2"
    have f: "take n (heap ?s2) = take n (heap ?s1)" "length (heap ?s2) = length (heap ?s1)"
      "SENSOR_CONFIG_global ?s2 = SENSOR_CONFIG_global ?s1"
      using assms by (rule setitem_frame)+
    have g: "take n (heap ?s1) = take n (heap s)" "SENSOR_CONFIG_global ?s1 = SENSOR_CONFIG_global s"
      "n \<le> length (heap ?s1)"
      using Cons.prems by simp_all
    have "n \<le> length (heap ?s2)" using g(3) by (simp only: f(2))
    from Cons.IH[OF this] show ?thesis by (simp only: a f g)
  qed
qed

lemma health_status_st_frame:
  "take (length (heap s)) (heap (snd (health_status_st lg s))) = heap s \<and>
   SENSOR_CONFIG_global (snd (health_status_st lg s)) = SENSOR_CONFIG_global s"
proof -
  let ?s1 = "s\<lparr>heap := heap s @ [DictObj []]\<rparr>"
  let ?n = "length (heap s)"
  have b: "take ?n (heap ?s1) = heap s" "SENSOR_CONFIG_global ?s1 = SENSOR_CONFIG_global s"
    by simp_all
  have n: "?n \<le> length (heap ?s1)" by simp
  have "(\<exists>e. health_status_st lg s = (Inl e, ?s1)) \<or>
        (\<exists>sensors entries. health_status_st lg s = health_loop_st sensors entries ?n ?s1)"
    by (simp add: health_status_st_def alloc_def split: sum.splits) blast
  then show ?thesis
  proof (elim disjE exE)
    fix e
    assume "health_status_st lg s = (Inl e, ?s1)"
    then show ?thesis by (simp only: snd_conv b simp_thms)
  next
    fix sensors entries
    assume "health_status_st lg s = health_loop_st sensors entries ?n ?s1"
    then show ?thesis
      using health_loop_st_frame[OF order_refl n, of sensors entries]
      by (simp only: b simp_thms)
  qed
qed

lemma detect_loop_KeyError:
  assumes "\<not> fst ` set items \<subseteq> fst ` set SENSOR_CONFIG"
  shows "\<exists>sensor. detect_loop items acc = Inl (KeyError sensor) \<and>
           sensor \<in> fst ` set items \<and> sensor \<notin> fst ` set SENSOR_CONFIG"
  using assms
proof (induction items arbitrary: acc)
  case Nil
  then show ?case by simp
next
  case (Cons item items)
  obtain k v where i: "item = (k, v)" by (cases item)
  show ?case
  proof (cases "k \<in> fst ` set SENSOR_CONFIG")
    case True
    with Cons.prems i have "\<not> fst ` set items \<subseteq> fst ` set SENSOR_CONFIG" by auto
    from Cons.IH[OF this, of "if out_of_bounds k v then AList.update k v acc else acc"]
    obtain sensor where
      "detect_loop items (if out_of_bounds k v then AList.update k v acc else acc) =
         Inl (KeyError sensor)"
      "sensor \<in> fst ` set items" "sensor \<notin> fst ` set SENSOR_CONFIG"
      by blast
    then show ?thesis unfolding i detect_loop_step[OF True] by auto
  next
    case False
    then have "map_of SENSOR_CONFIG k = None" by (simp add: map_of_eq_None_iff)
    then have "detect_loop (item # items) acc = Inl (KeyError k)"
      by (simp add: i getitem_def)
    with False i show ?thesis by auto
  qed
qed

lemma getitem_box: "getitem (box d) k = (case getitem d k of Inl e \<Rightarrow> Inl e | Inr v \<Rightarrow> Inr (Float v))"
proof -
  have "map_of (box d) k = map_option Float (map_of d k)"
    unfolding box_def by (induction d) auto
  then show ?thesis by (simp add: getitem_def split: option.splits)
qed

lemma box_update: "box (AList.update k v d) = AList.update k (Float v) (box d)"
  unfolding box_def by (induction d) auto

lemma box_Cons: "box ((k, v) # d) = (k, Float v) # box d"
  by (simp add: box_def)

lemma box_Nil: "box [] = []"
  by (simp add: box_def)

lemma list_all2_getitem:
  assumes "list_all2 (\<lambda>(k, r) (k', y). k = k' \<and> Q r y) xs ys"
  shows "case getitem ys k of
           Inl e \<Rightarrow> getitem xs k = Inl e
         | Inr y \<Rightarrow> (\<exists>r. getitem xs k = Inr r \<and> Q r y)"
  using assms
  by (induction rule: list_all2_induct) (auto simp: getitem_def split: option.splits)

lemma config_at_lookup:
  assumes "config_at n s"
  shows "\<exists>config. load_dict s (Ref (SENSOR_CONFIG_global s)) = Inr config \<and>
           (case getitem SENSOR_CONFIG sensor of
              Inl e \<Rightarrow> getitem config sensor = Inl e
            | Inr limits \<Rightarrow>
                (\<exists>r. getitem config sensor = Inr r \<and> load_dict s r = Inr (box limits)))"
proof -
  from assms obtain config where
    g: "SENSOR_CONFIG_global s < length (heap s)" and
    c: "heap s ! SENSOR_CONFIG_global s = DictObj config" and
    l: "list_all2 (\<lambda>(k, r) (k', limits). k = k' \<and>
            (\<exists>l < n. r = Ref l \<and> heap s ! l = DictObj (box limits))) config SENSOR_CONFIG" and
    n: "n \<le> length (heap s)"
    unfolding config_at_def by auto
  have ld: "load_dict s (Ref (SENSOR_CONFIG_global s)) = Inr config"
    using g c by (simp add: load_dict_def)
  from list_all2_getitem[OF l, of sensor]
  have "case getitem SENSOR_CONFIG sensor of
              Inl e \<Rightarrow> getitem config sensor = Inl e
            | Inr limits \<Rightarrow>
                (\<exists>r. getitem config sensor = Inr r \<and> load_dict s r = Inr (box limits))"
    using n by (auto simp: load_dict_def split: sum.splits)
  with ld show ?thesis by blast
qed

lemma py_less_Float: "py_less (Float a) (Float b) = Inr (a < b)"
  by (simp add: py_less_def)

lemma detect_loop_st_pure_step:
  assumes "config_at n s"
  shows "detect_loop_st ((sensor, Float reading) # items) a s =
     (case getitem SENSOR_CONFIG sensor of
        Inl e \<Rightarrow> (Inl e, s)
      | Inr limits \<Rightarrow>
          (case getitem limits ''min'' of
             Inl e \<Rightarrow> (Inl e, s)
           | Inr lo \<Rightarrow>
               if reading < lo
               then detect_loop_st items a (setitem a sensor (Float reading) s)
               else (case getitem limits ''max'' of
                       Inl e \<Rightarrow> (Inl e, s)
                     | Inr hi \<Rightarrow>
                         if reading > hi
                         then detect_loop_st items a (setitem a sensor (Float reading) s)
                         else detect_loop_st items a s)))"
proof -
  from config_at_lookup[OF assms, of sensor] obtain config where
    ld: "load_dict s (Ref (SENSOR_CONFIG_global s)) = Inr config" and
    c: "case getitem SENSOR_CONFIG sensor of
              Inl e \<Rightarrow> getitem config sensor = Inl e
            | Inr limits \<Rightarrow>
                (\<exists>r. getitem config sensor = Inr r \<and> load_dict s r = Inr (box limits))"
    by blast
  show ?thesis
  proof (cases "getitem SENSOR_CONFIG sensor")
    case (Inl e)
    with c have "getitem config sensor = Inl e" by simp
    with Inl ld show ?thesis by simp
  next
    case (Inr limits)
    with c obtain r where r: "getitem config sensor = Inr r" "load_dict s r = Inr (box limits)"
      by auto
    show ?thesis
      by (simp add: Inr ld r getitem_box py_less_Float split: sum.splits)
  qed
qed

lemma config_at_setitem:
  assumes "config_at n s" "n \<le> a"
  shows "config_at n (setitem a k v s)"
proof -
  have h: "heap (setitem a k v s) ! l = heap s ! l" if "l < n" for l
    using that assms(2) by (simp add: setitem_def split: pyobj.splits)
  have g: "SENSOR_CONFIG_global (setitem a k v s) = SENSOR_CONFIG_global s"
    "length (heap (setitem a k v s)) = length (heap s)"
    using assms(2) by (simp_all add: setitem_frame)
  from assms(1) obtain config where
    c: "n \<le> length (heap s)" "SENSOR_CONFIG_global s < n"
      "heap s ! SENSOR_CONFIG_global s = DictObj config"
      "list_all2 (\<lambda>(k, r) (k', limits). k = k' \<and>
            (\<exists>l < n. r = Ref l \<and> heap s ! l = DictObj (box limits))) config SENSOR_CONFIG"
    unfolding config_at_def by auto
  have "list_all2 (\<lambda>(k', r) (k'', limits). k' = k'' \<and>
            (\<exists>l < n. r = Ref l \<and> heap (setitem a k v s) ! l = DictObj (box limits)))
          config SENSOR_CONFIG"
    using c(4) by (rule list_all2_mono) (auto simp: h)
  with c(1,2,3) show ?thesis
    unfolding config_at_def g by (auto simp: h)
qed

lemma setitem_at:
  assumes "a < length (heap s)" "heap s ! a = DictObj d"
  shows "heap (setitem a k v s) ! a = DictObj (AList.update k v d)"
    and "length (heap (setitem a k v s)) = length (heap s)"
  using assms by (simp_all add: setitem_def)

lemma detect_loop_st_refines:
  assumes "n \<le> a"
  shows "config_at n s \<Longrightarrow> a < length (heap s) \<Longrightarrow> heap s ! a = DictObj (box acc) \<Longrightarrow>
     (case detect_loop d acc of
        Inl e \<Rightarrow> fst (detect_loop_st (box d) a s) = Inl e
      | Inr res \<Rightarrow> fst (detect_loop_st (box d) a s) = Inr a \<and>
          heap (snd (detect_loop_st (box d) a s)) ! a = DictObj (box res))"
proof (induction d arbitrary: acc s)
  case Nil
  then show ?case by (simp add: box_Nil)
next
  case (Cons item d)
  obtain k v where i: "item = (k, v)" by (cases item)
  let ?s' = "setitem a k (Float v) s"
  have u: "case detect_loop d (AList.update k v acc) of
        Inl e \<Rightarrow> fst (detect_loop_st (box d) a ?s') = Inl e
      | Inr res \<Rightarrow> fst (detect_loop_st (box d) a ?s') = Inr a \<and>
          heap (snd (detect_loop_st (box d) a ?s')) ! a = DictObj (box res)"
  proof (rule Cons.IH)
    show "config_at n ?s'" using Cons.prems(1) assms by (rule config_at_setitem)
    show "a < length (heap ?s')" using Cons.prems(2,3) by (simp add: setitem_at)
    show "heap ?s' ! a = DictObj (box (AList.update k v acc))"
      using Cons.prems(2,3) by (simp add: setitem_at box_update)
  qed
  have n: "case detect_loop d acc of
        Inl e \<Rightarrow> fst (detect_loop_st (box d) a s) = Inl e
      | Inr res \<Rightarrow> fst (detect_loop_st (box d) a s) = Inr a \<and>
          heap (snd (detect_loop_st (box d) a s)) ! a = DictObj (box res)"
    using Cons.prems by (rule Cons.IH)
  show ?case
    unfolding i box_Cons detect_loop_st_pure_step[OF Cons.prems(1)] detect_loop.simps
    using u n by (simp split: sum.splits)
qed

lemma config_at_alloc:
  assumes "config_at (length (heap s)) s"
  shows "config_at (length (heap s)) (s\<lparr>heap := heap s @ [obj]\<rparr>)"
proof -
  let ?n = "length (heap s)"
  from assms obtain config where
    c: "SENSOR_CONFIG_global s < ?n"
      "heap s ! SENSOR_CONFIG_global s = DictObj config"
      "list_all2 (\<lambda>(k, r) (k', limits). k = k' \<and>
            (\<exists>l < ?n. r = Ref l \<and> heap s ! l = DictObj (box limits))) config SENSOR_CONFIG"
    unfolding config_at_def by auto
  have "list_all2 (\<lambda>(k, r) (k', limits). k = k' \<and>
            (\<exists>l < ?n. r = Ref l \<and> (heap s @ [obj]) ! l = DictObj (box limits)))
          config SENSOR_CONFIG"
    using c(3) by (rule list_all2_mono) (auto simp: nth_append)
  with c(1,2) show ?thesis
    unfolding config_at_def by (auto simp: nth_append)
qed

text \<open>
  The two embeddings agree. When the store holds the configuration and, at \<open>data\<close>,
  the dict \<open>d\<close>, the call on the store raises what \<open>detect_anomalies d\<close> raises, or
  returns the address of a fresh dict holding what \<open>detect_anomalies d\<close> returns.
\<close>

lemma detect_anomalies_st_refines:
  assumes c: "config_at (length (heap s)) s"
    and d: "data < length (heap s)" "heap s ! data = DictObj (box d)"
  shows "case detect_anomalies d of
           Inl e \<Rightarrow> fst (detect_anomalies_st data s) = Inl e
         | Inr res \<Rightarrow>
             fst (detect_anomalies_st data s) = Inr (length (heap s)) \<and>
             heap (snd (detect_anomalies_st data s)) ! length (heap s) = DictObj (box res)"
proof -
  let ?n = "length (heap s)"
  let ?s1 = "s\<lparr>heap := heap s @ [DictObj []]\<rparr>"
  have l: "load_dict ?s1 (Ref data) = Inr (box d)"
    using d by (simp add: load_dict_def nth_append)
  have e: "detect_anomalies_st data s = detect_loop_st (box d) ?n ?s1"
    by (simp add: detect_anomalies_st_def alloc_def l)
  have "case detect_loop d [] of
        Inl e \<Rightarrow> fst (detect_loop_st (box d) ?n ?s1) = Inl e
      | Inr res \<Rightarrow> fst (detect_loop_st (box d) ?n ?s1) = Inr ?n \<and>
          heap (snd (detect_loop_st (box d) ?n ?s1)) ! ?n = DictObj (box res)"
  proof (rule detect_loop_st_refines[OF order_refl])
    show "config_at ?n ?s1" using c by (rule config_at_alloc)
    show "?n < length (heap ?s1)" by simp
    show "heap ?s1 ! ?n = DictObj (box [])" by (simp add: box_Nil)
  qed
  then show ?thesis by (simp only: e detect_anomalies_def)
qed

lemma floats_Float: "floats (map Float vals) = Inr vals"
  by (induction vals) simp_all

lemma collect_values_st_refines:
  assumes "log_at n s refs lg" "n \<le> length (heap s)"
  shows "collect_values_st s sensor refs =
           (case collect_values sensor lg of Inl e \<Rightarrow> Inl e | Inr vals \<Rightarrow> Inr (map Float vals))"
  using assms(1) unfolding log_at_def
proof (induction rule: list_all2_induct)
  case Nil
  show ?case by simp
next
  case (Cons r refs entry lg)
  from Cons.hyps(1) assms(2) have "load_dict s r = Inr (box entry)"
    by (auto simp: load_dict_def)
  then show ?case
    by (simp add: Cons.IH getitem_box split: sum.splits)
qed

lemma health_loop_st_pure_step:
  assumes "log_at n s refs lg" "n \<le> length (heap s)"
  shows "health_loop_st (sensor # sensors) refs a s =
     (case collect_values sensor lg of
        Inl e \<Rightarrow> (Inl e, s)
      | Inr vals \<Rightarrow>
          (case mean vals of
             Inl e \<Rightarrow> (Inl e, s)
           | Inr m \<Rightarrow>
               (case (if length vals > 1
                      then (case stdev vals of Inl e \<Rightarrow> Inl e | Inr sd \<Rightarrow> Inr (round_py sd 2))
                      else Inr 0) of
                  Inl e \<Rightarrow> (Inl e, s)
                | Inr sd \<Rightarrow>
                    health_loop_st sensors refs a
                      (setitem a sensor (Ref (length (heap s)))
                        (s\<lparr>heap := heap s @
                            [DictObj (box [(''avg'', round_py m 2), (''std_dev'', sd)])]\<rparr>)))))"
  by (simp add: collect_values_st_refines[OF assms] floats_Float alloc_def box_def
      split: sum.splits)

lemma list_all2_update:
  assumes "list_all2 (\<lambda>(k, x) (k', y). k = k' \<and> Q x y) xs ys" "Q x y"
  shows "list_all2 (\<lambda>(k, x) (k', y). k = k' \<and> Q x y) (AList.update k x xs) (AList.update k y ys)"
  using assms by (induction rule: list_all2_induct) auto

lemma health_step_store:
  assumes n: "n \<le> a" and a: "a < length (heap s)"
    and lg: "log_at n s refs lg" and st: "status_at s a status"
  shows "log_at n (setitem a sensor (Ref (length (heap s))) (s\<lparr>heap := heap s @ [DictObj (box d)]\<rparr>))
           refs lg"
    and "status_at (setitem a sensor (Ref (length (heap s))) (s\<lparr>heap := heap s @ [DictObj (box d)]\<rparr>))
           a (AList.update sensor d status)"
    and "a < length (heap (setitem a sensor (Ref (length (heap s)))
           (s\<lparr>heap := heap s @ [DictObj (box d)]\<rparr>)))"
proof -
  let ?m = "length (heap s)"
  let ?s1 = "s\<lparr>heap := heap s @ [DictObj (box d)]\<rparr>"
  let ?s2 = "setitem a sensor (Ref ?m) ?s1"
  from st obtain sd where
    sd: "heap s ! a = DictObj sd" and
    l2: "list_all2 (\<lambda>(k, r) (k', st). k = k' \<and>
           (\<exists>l < ?m. r = Ref l \<and> l \<noteq> a \<and> heap s ! l = DictObj (box st))) sd status"
    unfolding status_at_def by blast
  have h1: "heap ?s1 ! a = DictObj sd" using a sd by (simp add: nth_append)
  have len: "length (heap ?s2) = Suc ?m"
    using a h1 by (simp add: setitem_def)
  have at: "heap ?s2 ! a = DictObj (AList.update sensor (Ref ?m) sd)"
    using a h1 by (simp add: setitem_def)
  have other: "heap ?s2 ! l = heap s ! l" if "l < ?m" "l \<noteq> a" for l
    using that a h1 by (simp add: setitem_def nth_append)
  have new: "heap ?s2 ! ?m = DictObj (box d)"
    using a h1 by (simp add: setitem_def nth_append)
  show "a < length (heap ?s2)" using a len by simp
  show "log_at n ?s2 refs lg"
    using lg unfolding log_at_def
  proof (rule list_all2_mono)
    fix r entry
    assume "\<exists>l < n. r = Ref l \<and> heap s ! l = DictObj (box entry)"
    then obtain l where "l < n" "r = Ref l" "heap s ! l = DictObj (box entry)" by blast
    moreover from this n a have "heap ?s2 ! l = heap s ! l" by (intro other) simp_all
    ultimately show "\<exists>l < n. r = Ref l \<and> heap ?s2 ! l = DictObj (box entry)" by auto
  qed
  have "list_all2 (\<lambda>(k, r) (k', st). k = k' \<and>
           (\<exists>l < Suc ?m. r = Ref l \<and> l \<noteq> a \<and> heap ?s2 ! l = DictObj (box st))) sd status"
    by (rule list_all2_mono[OF l2]) (use other in \<open>auto simp: less_Suc_eq\<close>)
  moreover have "\<exists>l < Suc ?m. Ref ?m = Ref l \<and> l \<noteq> a \<and> heap ?s2 ! l = DictObj (box d)"
    using new a by auto
  ultimately have "list_all2 (\<lambda>(k, r) (k', st). k = k' \<and>
           (\<exists>l < Suc ?m. r = Ref l \<and> l \<noteq> a \<and> heap ?s2 ! l = DictObj (box st)))
         (AList.update sensor (Ref ?m) sd) (AList.update sensor d status)"
    by (rule list_all2_update)
  then show "status_at ?s2 a (AList.update sensor d status)"
    unfolding status_at_def len using at by blast
qed

lemma health_loop_both_steps:
  assumes "log_at n s refs lg" "n \<le> length (heap s)"
  shows "(\<exists>e. health_loop (sensor # sensors) lg status = Inl e \<and>
              health_loop_st (sensor # sensors) refs a s = (Inl e, s)) \<or>
         (\<exists>d. health_loop (sensor # sensors) lg status =
                health_loop sensors lg (AList.update sensor d status) \<and>
              health_loop_st (sensor # sensors) refs a s =
                health_loop_st sensors refs a
                  (setitem a sensor (Ref (length (heap s)))
                    (s\<lparr>heap := heap s @ [DictObj (box d)]\<rparr>)))"
  unfolding health_loop_st_pure_step[OF assms] health_loop.simps
  by (simp split: sum.splits) blast

lemma health_loop_st_refines:
  assumes "n \<le> a"
  shows "a < length (heap s) \<Longrightarrow> log_at n s refs lg \<Longrightarrow> status_at s a status \<Longrightarrow>
     (case health_loop sensors lg status of
        Inl e \<Rightarrow> fst (health_loop_st sensors refs a s) = Inl e
      | Inr res \<Rightarrow> fst (health_loop_st sensors refs a s) = Inr a \<and>
          status_at (snd (health_loop_st sensors refs a s)) a res)"
proof (induction sensors arbitrary: s status)
  case Nil
  then show ?case by simp
next
  case (Cons sensor sensors)
  have nl: "n \<le> length (heap s)" using assms Cons.prems(1) by simp
  from health_loop_both_steps[OF Cons.prems(2) nl, of sensor sensors status a] show ?case
  proof (elim disjE exE conjE)
    fix e
    assume "health_loop (sensor # sensors) lg status = Inl e"
      "health_loop_st (sensor # sensors) refs a s = (Inl e, s)"
    then show ?thesis by (simp only: sum.case fst_conv)
  next
    fix d
    let ?s2 = "setitem a sensor (Ref (length (heap s))) (s\<lparr>heap := heap s @ [DictObj (box d)]\<rparr>)"
    assume e: "health_loop (sensor # sensors) lg status =
                health_loop sensors lg (AList.update sensor d status)"
      "health_loop_st (sensor # sensors) refs a s = health_loop_st sensors refs a ?s2"
    have "case health_loop sensors lg (AList.update sensor d status) of
        Inl e \<Rightarrow> fst (health_loop_st sensors refs a ?s2) = Inl e
      | Inr res \<Rightarrow> fst (health_loop_st sensors refs a ?s2) = Inr a \<and>
          status_at (snd (health_loop_st sensors refs a ?s2)) a res"
      by (rule Cons.IH) (rule health_step_store[OF assms Cons.prems])+
    then show ?thesis by (simp only: e)
  qed
qed

lemma list_all2_keys:
  assumes "list_all2 (\<lambda>(k, x) (k', y). k = k' \<and> Q x y) xs ys"
  shows "map fst xs = map fst ys"
  using assms by (induction rule: list_all2_induct) auto

text \<open>
  Likewise for \<open>health_status\<close>: on a store that holds the configuration and the log
  \<open>lg\<close>, the call raises what \<open>health_status lg\<close> raises, or returns the address of
  a fresh dict that binds each sensor to a fresh dict holding its summary.
\<close>

lemma health_status_st_refines:
  assumes c: "config_at (length (heap s)) s"
    and l: "lg_addr < length (heap s)" "heap s ! lg_addr = ListObj refs"
      "log_at (length (heap s)) s refs lg"
  shows "case health_status lg of
           Inl e \<Rightarrow> fst (health_status_st lg_addr s) = Inl e
         | Inr res \<Rightarrow>
             fst (health_status_st lg_addr s) = Inr (length (heap s)) \<and>
             status_at (snd (health_status_st lg_addr s)) (length (heap s)) res"
proof -
  let ?n = "length (heap s)"
  let ?s1 = "s\<lparr>heap := heap s @ [DictObj []]\<rparr>"
  have c1: "config_at ?n ?s1" using c by (rule config_at_alloc)
  then obtain config where
    g: "SENSOR_CONFIG_global ?s1 < ?n" and
    h: "heap ?s1 ! SENSOR_CONFIG_global ?s1 = DictObj config" and
    k: "list_all2 (\<lambda>(k, r) (k', limits). k = k' \<and>
            (\<exists>l < ?n. r = Ref l \<and> heap ?s1 ! l = DictObj (box limits))) config SENSOR_CONFIG"
    unfolding config_at_def by blast
  have ld: "load_dict ?s1 (Ref (SENSOR_CONFIG_global ?s1)) = Inr config"
    using g h by (simp add: load_dict_def)
  have keys: "map fst config = map fst SENSOR_CONFIG" using k by (rule list_all2_keys)
  have ll: "load_list ?s1 (Ref lg_addr) = Inr refs"
    using l(1,2) by (simp add: load_list_def nth_append)
  have e: "health_status_st lg_addr s = health_loop_st (map fst SENSOR_CONFIG) refs ?n ?s1"
    using ld ll by (simp add: health_status_st_def alloc_def keys)
  have lg1: "log_at ?n ?s1 refs lg"
    unfolding log_at_def
    by (rule list_all2_mono[OF l(3)[unfolded log_at_def]]) (auto simp: nth_append)
  have st: "status_at ?s1 ?n []" by (simp add: status_at_def)
  have "case health_loop (map fst SENSOR_CONFIG) lg [] of
        Inl e \<Rightarrow> fst (health_loop_st (map fst SENSOR_CONFIG) refs ?n ?s1) = Inl e
      | Inr res \<Rightarrow> fst (health_loop_st (map fst SENSOR_CONFIG) refs ?n ?s1) = Inr ?n \<and>
          status_at (snd (health_loop_st (map fst SENSOR_CONFIG) refs ?n ?s1)) ?n res"
    by (rule health_loop_st_refines[OF order_refl _ lg1 st]) simp
  then show ?thesis by (simp only: e health_status_def)
qed

text \<open>The example store meets the hypotheses of both, and the results are as expected.\<close>

lemma example_store_config_at: "config_at (length (heap example_store)) example_store"
  by (simp add: config_at_def example_store_def SENSOR_CONFIG_def box_def)

lemma example_store_log_at:
  "log_at (length (heap example_store)) example_store [Ref 4]
     [[(''temperature'', 25), (''vibration'', 1 / 2), (''voltage'', 115)]]"
  by (simp add: log_at_def example_store_def box_def)

lemma example_store_detect_anomalies:
  "fst (detect_anomalies_st 4 example_store) = Inr (length (heap example_store)) \<and>
   heap (snd (detect_anomalies_st 4 example_store)) ! length (heap example_store) =
     DictObj (box [(''temperature'', 25)])"
proof -
  have d: "4 < length (heap example_store)"
    "heap example_store ! 4 =
       DictObj (box [(''temperature'', 25), (''vibration'', 1 / 2), (''voltage'', 115)])"
    by (simp_all add: example_store_def box_def)
  have p: "detect_anomalies [(''temperature'', 25), (''vibration'', 1 / 2), (''voltage'', 115)] =
      Inr [(''temperature'', 25)]"
    by (simp add: detect_anomalies_def SENSOR_CONFIG_def getitem_def)
  from detect_anomalies_st_refines[OF example_store_config_at d] show ?thesis
    by (simp only: p sum.case)
qed

lemma example_store_health_status:
  "fst (health_status_st 5 example_store) = Inr (length (heap example_store)) \<and>
   status_at (snd (health_status_st 5 example_store)) (length (heap example_store))
     [(''temperature'', [(''avg'', 25), (''std_dev'', 0)]),
      (''vibration'', [(''avg'', 1 / 2), (''std_dev'', 0)]),
      (''voltage'', [(''avg'', 115), (''std_dev'', 0)])]"
proof -
  have l: "5 < length (heap example_store)" "heap example_store ! 5 = ListObj [Ref 4]"
    by (simp_all add: example_store_def)
  have p: "health_status [[(''temperature'', 25), (''vibration'', 1 / 2), (''voltage'', 115)]] =
      Inr [(''temperature'', [(''avg'', 25), (''std_dev'', 0)]),
           (''vibration'', [(''avg'', 1 / 2), (''std_dev'', 0)]),
           (''voltage'', [(''avg'', 115), (''std_dev'', 0)])]"
    by (simp add: health_status_def SENSOR_CONFIG_def getitem_def mean_def round_py_def
        round_half_even_def)
  from health_status_st_refines[OF example_store_config_at l example_store_log_at] show ?thesis
    by (simp only: p sum.case)
qed

text \<open>
  Claim C7. \<open>detect_anomalies\<close> fails exactly when the reading contains a sensor
  absent from \<open>SENSOR_CONFIG\<close>, and then with the \<open>KeyError\<close> of such a sensor; on
  a reading whose sensors are all configured it returns a dict. It has no side effect:
  on the store, every object that existed before the call is the same after it, and
  the global \<open>SENSOR_CONFIG\<close> is bound to the same object.
\<close>

theorem detect_anomalies_lookup_error:
  "((\<exists>e. detect_anomalies data = Inl e) \<longleftrightarrow>
      (\<exists>sensor. sensor \<in> fst ` set data \<and> sensor \<notin> fst ` set SENSOR_CONFIG)) \<and>
   (\<forall>e. detect_anomalies data = Inl e \<longrightarrow>
      (\<exists>sensor. e = KeyError sensor \<and> sensor \<in> fst ` set data \<and>
         sensor \<notin> fst ` set SENSOR_CONFIG)) \<and>
   (fst ` set data \<subseteq> fst ` set SENSOR_CONFIG \<longrightarrow>
      (\<exists>anomalies. detect_anomalies data = Inr anomalies)) \<and>
   take (length (heap s)) (heap (snd (detect_anomalies_st a s))) = heap s \<and>
   SENSOR_CONFIG_global (snd (detect_anomalies_st a s)) = SENSOR_CONFIG_global s"
proof -
  have ok: "\<exists>anomalies. detect_anomalies data = Inr anomalies"
    if "fst ` set data \<subseteq> fst ` set SENSOR_CONFIG"
    using detect_loop_total[OF that, of "[]"] unfolding detect_anomalies_def by blast
  have bad: "\<exists>sensor. detect_anomalies data = Inl (KeyError sensor) \<and>
      sensor \<in> fst ` set data \<and> sensor \<notin> fst ` set SENSOR_CONFIG"
    if "\<not> fst ` set data \<subseteq> fst ` set SENSOR_CONFIG"
    using detect_loop_KeyError[OF that, of "[]"] unfolding detect_anomalies_def .
  have c1: "(\<exists>e. detect_anomalies data = Inl e) \<longleftrightarrow>
      (\<exists>sensor. sensor \<in> fst ` set data \<and> sensor \<notin> fst ` set SENSOR_CONFIG)"
  proof (cases "fst ` set data \<subseteq> fst ` set SENSOR_CONFIG")
    case True
    from ok[OF True] True show ?thesis by auto
  next
    case False
    from bad[OF False] show ?thesis by blast
  qed
  have c2: "\<forall>e. detect_anomalies data = Inl e \<longrightarrow>
      (\<exists>sensor. e = KeyError sensor \<and> sensor \<in> fst ` set data \<and>
         sensor \<notin> fst ` set SENSOR_CONFIG)"
  proof (cases "fst ` set data \<subseteq> fst ` set SENSOR_CONFIG")
    case True
    from ok[OF True] show ?thesis by auto
  next
    case False
    from bad[OF False] obtain sensor where
      b: "detect_anomalies data = Inl (KeyError sensor)" "sensor \<in> fst ` set data"
        "sensor \<notin> fst ` set SENSOR_CONFIG"
      by blast
    show ?thesis
    proof (intro allI impI)
      fix e
      assume "detect_anomalies data = Inl e"
      with b(1) have "e = KeyError sensor" by simp
      with b(2,3) show "\<exists>sensor. e = KeyError sensor \<and> sensor \<in> fst ` set data \<and>
         sensor \<notin> fst ` set SENSOR_CONFIG"
        by blast
    qed
  qed
  have c3: "fst ` set data \<subseteq> fst ` set SENSOR_CONFIG \<longrightarrow>
      (\<exists>anomalies. detect_anomalies data = Inr anomalies)"
    using ok by blast
  from detect_anomalies_st_frame[of s a]
  have c4: "take (length (heap s)) (heap (snd (detect_anomalies_st a s))) = heap s"
    and c5: "SENSOR_CONFIG_global (snd (detect_anomalies_st a s)) = SENSOR_CONFIG_global s"
    by simp_all
  from c1 c2 c3 c4 c5 show ?thesis by (intro conjI)
qed

theorem detect_anomalies_lookup_error_witness:
  "detect_anomalies [(''temperature'', 20), (''humidity'', 40), (''voltage'', 115)] =
     Inl (KeyError ''humidity'') \<and>
   (\<exists>sensor. sensor \<in> fst ` set [(''temperature'', 20::real), (''humidity'', 40), (''voltage'', 115)] \<and>
      sensor \<notin> fst ` set SENSOR_CONFIG) \<and>
   fst ` set [(''voltage'', 130::real), (''temperature'', 20)] \<subseteq> fst ` set SENSOR_CONFIG \<and>
   (\<exists>anomalies. detect_anomalies [(''voltage'', 130), (''temperature'', 20)] = Inr anomalies)"
proof -
  let ?D = "[(''temperature'', 20::real), (''humidity'', 40), (''voltage'', 115)]"
  let ?E = "[(''voltage'', 130::real), (''temperature'', 20)]"
  have e: "detect_anomalies ?D = Inl (KeyError ''humidity'')"
    by (simp add: detect_anomalies_def SENSOR_CONFIG_def getitem_def)
  then have "\<exists>e. detect_anomalies ?D = Inl e" by (rule exI)
  with detect_anomalies_lookup_error[of ?D, THEN conjunct1]
  have b: "\<exists>sensor. sensor \<in> fst ` set ?D \<and> sensor \<notin> fst ` set SENSOR_CONFIG"
    by (rule iffD1)
  have h: "fst ` set ?E \<subseteq> fst ` set SENSOR_CONFIG" by (simp add: SENSOR_CONFIG_def)
  note t = detect_anomalies_lookup_error[of ?E, THEN conjunct2, THEN conjunct2, THEN conjunct1,
      THEN mp, OF h]
  from e b h t show ?thesis by (intro conjI)
qed

text \<open>
  Claim C9. \<open>detect_anomalies\<close> and \<open>health_status\<close> leave their inputs and
  \<open>SENSOR_CONFIG\<close> unchanged. On the store, whatever the argument and whether the
  call returns or raises, every object that existed before the call (the reading, the
  log, every entry of the log, the configuration and its per-sensor dicts among them)
  is the same object with the same content after the call, and the global
  \<open>SENSOR_CONFIG\<close> is bound to the same address: the calls only append fresh objects.
\<close>

theorem inputs_unchanged:
  "take (length (heap s)) (heap (snd (detect_anomalies_st data s))) = heap s \<and>
   SENSOR_CONFIG_global (snd (detect_anomalies_st data s)) = SENSOR_CONFIG_global s \<and>
   (\<forall>a < length (heap s). heap (snd (detect_anomalies_st data s)) ! a = heap s ! a) \<and>
   take (length (heap s)) (heap (snd (health_status_st lg s))) = heap s \<and>
   SENSOR_CONFIG_global (snd (health_status_st lg s)) = SENSOR_CONFIG_global s \<and>
   (\<forall>a < length (heap s). heap (snd (health_status_st lg s)) ! a = heap s ! a)"
proof -
  have p: "\<forall>a < length xs. ys ! a = xs ! a" if "take (length xs) ys = xs" for xs ys :: "pyobj list"
  proof (intro allI impI)
    fix a
    assume "a < length xs"
    then have "take (length xs) ys ! a = ys ! a" by simp
    then show "ys ! a = xs ! a" by (simp only: that)
  qed
  note d = detect_anomalies_st_frame[of s data]
  note h = health_status_st_frame[of s lg]
  from d[THEN conjunct1] d[THEN conjunct2] p[OF d[THEN conjunct1]]
    h[THEN conjunct1] h[THEN conjunct2] p[OF h[THEN conjunct1]]
  show ?thesis by (intro conjI)
qed

theorem inputs_unchanged_witness:
  "fst (detect_anomalies_st 4 example_store) = Inr 6 \<and>
   heap (snd (detect_anomalies_st 4 example_store)) =
     heap example_store @ [DictObj [(''temperature'', Float 25)]] \<and>
   SENSOR_CONFIG_global (snd (detect_anomalies_st 4 example_store)) = 0 \<and>
   fst (health_status_st 5 example_store) = Inr 6 \<and>
   take 6 (heap (snd (health_status_st 5 example_store))) = heap example_store \<and>
   heap (snd (health_status_st 5 example_store)) ! 4 =
     DictObj [(''temperature'', Float 25), (''vibration'', Float (1 / 2)), (''voltage'', Float 115)] \<and>
   heap (snd (health_status_st 5 example_store)) ! 5 = ListObj [Ref 4]"
proof -
  have n: "length (heap example_store) = 6" by (simp add: example_store_def)
  have g: "SENSOR_CONFIG_global example_store = 0" by (simp add: example_store_def)
  have d: "detect_anomalies_st 4 example_store =
      (Inr 6, example_store\<lparr>heap := heap example_store @ [DictObj [(''temperature'', Float 25)]]\<rparr>)"
    by (simp add: detect_anomalies_st_def alloc_def example_store_def load_dict_def getitem_def
        py_less_def setitem_def)
  have h: "fst (health_status_st 5 example_store) = Inr 6"
    by (simp add: health_status_st_def alloc_def example_store_def load_dict_def load_list_def
        getitem_def setitem_def mean_def split_def)
  note t = inputs_unchanged[of example_store 4 5, unfolded n g]
  have a4: "(4::nat) < 6" and a5: "(5::nat) < 6" by simp_all
  note h4 = t[THEN conjunct2, THEN conjunct2, THEN conjunct2, THEN conjunct2, THEN conjunct2,
      THEN spec, THEN mp, OF a4]
  note h5 = t[THEN conjunct2, THEN conjunct2, THEN conjunct2, THEN conjunct2, THEN conjunct2,
      THEN spec, THEN mp, OF a5]
  have e4: "heap example_store ! 4 =
     DictObj [(''temperature'', Float 25), (''vibration'', Float (1 / 2)), (''voltage'', Float 115)]"
    and e5: "heap example_store ! 5 = ListObj [Ref 4]"
    by (simp_all add: example_store_def)
  show ?thesis
    using t[THEN conjunct2, THEN conjunct1] t[THEN conjunct2, THEN conjunct2, THEN conjunct2, THEN conjunct1]
      h h4 h5
    by (simp only: d fst_conv snd_conv e4 e5 simp_thms) simp
qed

end
